theory Spec2Isabelle
  imports Main "HOL-Library.Word" "HOL-Library.Code_Target_Numeral"
begin

unbundle bit_operations_syntax

section \<open>Data model\<close>

text \<open>
  The embedding fixes the LP64 little-endian instantiation of the native ELF class
  (\<open>ElfW(Phdr) = Elf64_Phdr\<close>, \<open>long\<close> and \<open>size_t\<close> of 64 bits), the one of the
  aarch64 device the collector is built for.  Unsigned arithmetic is that of
  \<open>64 word\<close>: \<open>+\<close>, \<open>-\<close> and \<open>*\<close> wrap, \<open>mod\<close> and \<open><\<close> are unsigned.
\<close>

type_synonym byte = "8 word"
type_synonym u16 = "16 word"
type_synonym u32 = "32 word"
type_synonym u64 = "64 word"

text \<open>\<open>Elf64_Phdr\<close>, field by field in the order of the C struct (no padding).\<close>

record Phdr =
  p_type :: u32
  p_flags :: u32
  p_offset :: u64
  p_vaddr :: u64
  p_paddr :: u64
  p_filesz :: u64
  p_memsz :: u64
  p_align :: u64

definition PT_LOAD :: u32 where "PT_LOAD = 1"
definition PT_NOTE :: u32 where "PT_NOTE = 4"
definition PF_X :: u32 where "PF_X = 1"
definition PF_W :: u32 where "PF_W = 2"
definition PF_R :: u32 where "PF_R = 4"

text \<open>
  \<open>FileRange = std::pair<long, long>\<close>, \<open>FileInfo = {long offset; std::string path}\<close>
  and \<open>FileMappings = std::map<FileRange, FileInfo>\<close>.  The claims only use
  \<open>count\<close>, \<open>find\<close> and \<open>operator[]\<close>, so the ordered map is a partial function.
\<close>

type_synonym FileRange = "u64 \<times> u64"

record FileInfo =
  offset :: u64
  path :: "byte list"

type_synonym FileMappings = "FileRange \<rightharpoonup> FileInfo"

section \<open>FilterSegments\<close>

text \<open>The value-initialised element \<open>std::vector::resize\<close> appends.\<close>

definition zero_Phdr :: Phdr where
  "zero_Phdr = \<lparr>p_type = 0, p_flags = 0, p_offset = 0, p_vaddr = 0, p_paddr = 0,
                p_filesz = 0, p_memsz = 0, p_align = 0\<rparr>"

text \<open>
  One pass of the loop body: \<open>ph\<close> is \<open>program_headers[i]\<close> and \<open>prev\<close> is
  \<open>(*program_headers_filtered)[i - 1]\<close>.
\<close>

definition FilterSegments_body :: "FileMappings \<Rightarrow> Phdr \<Rightarrow> Phdr \<Rightarrow> Phdr" where
  "FilterSegments_body file_mappings prev ph =
     (let range = (p_vaddr ph, p_vaddr ph + p_memsz ph);
          out1 = (if p_type ph = PT_LOAD \<and> file_mappings range \<noteq> None
                  then ph\<lparr>p_filesz := 0\<rparr> else ph);
          out2 = out1\<lparr>p_offset := p_offset prev + p_filesz prev\<rparr>
      in if p_align out2 \<noteq> 0 \<and> p_offset out2 mod p_align out2 \<noteq> 0
         then out2\<lparr>p_offset := p_offset out2 + (p_align out2 - p_offset out2 mod p_align out2)\<rparr>
         else out2)"

function FilterSegments_loop ::
  "nat \<Rightarrow> Phdr list \<Rightarrow> FileMappings \<Rightarrow> Phdr list \<Rightarrow> Phdr list" where
  "FilterSegments_loop i program_headers file_mappings filtered =
     (if i < length program_headers
      then FilterSegments_loop (i + 1) program_headers file_mappings
             (filtered[i := FilterSegments_body file_mappings (filtered ! (i - 1))
                               (program_headers ! i)])
      else filtered)"
  by pat_completeness auto
termination
  by (relation "measure (\<lambda>(i, phs, fm, out). length phs - i)") auto

declare FilterSegments_loop.simps [simp del]

text \<open>
  \<open>(*program_headers_filtered)[0] = program_headers[0]\<close> indexes an empty vector when
  the input is empty: undefined behaviour, \<open>None\<close> here.
\<close>

definition FilterSegments :: "Phdr list \<Rightarrow> FileMappings \<Rightarrow> Phdr list option" where
  "FilterSegments program_headers file_mappings =
     (if program_headers = [] then None
      else Some (FilterSegments_loop 1 program_headers file_mappings
                   ((replicate (length program_headers) zero_Phdr)[0 := program_headers ! 0])))"


section \<open>Errors\<close>

text \<open>
  The source reports every failure as \<open>false\<close> or \<open>-1\<close> after logging it.  The model
  tags each failing return with the kind of the failure.  \<open>Aborted\<close> is not a return:
  \<open>std::vector::resize\<close> could not get the memory, or was asked for more than
  \<open>max_size()\<close>, and the process ends in \<open>abort()\<close> there.
\<close>

datatype error =
  ParseError | TruncatedInput | InvalidSeek | IOError | SizeLimitExceeded | WriteConflict
  | Aborted

section \<open>Bytes and struct fields\<close>

fun le_nat :: "byte list \<Rightarrow> nat" where
  "le_nat [] = 0"
| "le_nat (b # bs) = unat b + 256 * le_nat bs"

fun le_bytes :: "nat \<Rightarrow> nat \<Rightarrow> byte list" where
  "le_bytes 0 v = []"
| "le_bytes (Suc n) v = of_nat (v mod 256) # le_bytes n (v div 256)"

definition field16 :: "byte list \<Rightarrow> nat \<Rightarrow> u16" where
  "field16 buf off = of_nat (le_nat (take 2 (drop off buf)))"

definition field32 :: "byte list \<Rightarrow> nat \<Rightarrow> u32" where
  "field32 buf off = of_nat (le_nat (take 4 (drop off buf)))"

definition field64 :: "byte list \<Rightarrow> nat \<Rightarrow> u64" where
  "field64 buf off = of_nat (le_nat (take 8 (drop off buf)))"

text \<open>\<open>Elf64_Ehdr\<close> is kept as the 64 bytes read; the fields are read at their offsets.\<close>

type_synonym Ehdr = "byte list"

definition sizeof_Ehdr :: u64 where "sizeof_Ehdr = 64"
definition sizeof_Phdr :: u64 where "sizeof_Phdr = 56"
definition ELFMAG :: "byte list" where "ELFMAG = [0x7f, 0x45, 0x4c, 0x46]"
definition kClass :: byte where "kClass = 2"
definition EV_CURRENT :: u32 where "EV_CURRENT = 1"
definition ET_CORE :: u16 where "ET_CORE = 4"

definition e_ident :: "Ehdr \<Rightarrow> byte list" where "e_ident h = take 16 h"
definition e_type :: "Ehdr \<Rightarrow> u16" where "e_type h = field16 h 16"
definition e_version :: "Ehdr \<Rightarrow> u32" where "e_version h = field32 h 20"
definition e_phoff :: "Ehdr \<Rightarrow> u64" where "e_phoff h = field64 h 32"
definition e_ehsize :: "Ehdr \<Rightarrow> u16" where "e_ehsize h = field16 h 52"
definition e_phentsize :: "Ehdr \<Rightarrow> u16" where "e_phentsize h = field16 h 54"
definition e_phnum :: "Ehdr \<Rightarrow> u16" where "e_phnum h = field16 h 56"

definition decode_Phdr :: "byte list \<Rightarrow> Phdr" where
  "decode_Phdr b =
     \<lparr>p_type = field32 b 0, p_flags = field32 b 4, p_offset = field64 b 8,
      p_vaddr = field64 b 16, p_paddr = field64 b 24, p_filesz = field64 b 32,
      p_memsz = field64 b 40, p_align = field64 b 48\<rparr>"

definition encode_Phdr :: "Phdr \<Rightarrow> byte list" where
  "encode_Phdr ph =
     le_bytes 4 (unat (p_type ph)) @ le_bytes 4 (unat (p_flags ph)) @
     le_bytes 8 (unat (p_offset ph)) @ le_bytes 8 (unat (p_vaddr ph)) @
     le_bytes 8 (unat (p_paddr ph)) @ le_bytes 8 (unat (p_filesz ph)) @
     le_bytes 8 (unat (p_memsz ph)) @ le_bytes 8 (unat (p_align ph))"

text \<open>The \<open>n\<close> records of the program-header table read into the resized vector.\<close>

fun decode_Phdrs :: "nat \<Rightarrow> byte list \<Rightarrow> Phdr list" where
  "decode_Phdrs 0 b = []"
| "decode_Phdrs (Suc n) b = decode_Phdr (take 56 b) # decode_Phdrs n (drop 56 b)"

section \<open>The input descriptor and FdReader\<close>

text \<open>
  The source descriptor delivers the bytes of \<open>pending\<close> and then ends, either with
  end of file (\<open>read\<close> returns 0) or with an error (\<open>read\<close> returns -1).  A
  \<open>read\<close> returns as many bytes as were asked for when that many are pending; the
  short reads and \<open>EINTR\<close> retries of a real descriptor only change the chunking.
\<close>

datatype stream_end = EndOfFile | ReadFailure

record Source =
  pending :: "byte list"
  ending :: stream_end

datatype read_result = Data "byte list" | Eof | Failed

definition sys_read :: "Source \<Rightarrow> nat \<Rightarrow> read_result \<times> Source" where
  "sys_read s n =
     (if n = 0 then (Eof, s)
      else if pending s = [] then (case ending s of EndOfFile \<Rightarrow> (Eof, s) | ReadFailure \<Rightarrow> (Failed, s))
      else (Data (take n (pending s)), s\<lparr>pending := drop n (pending s)\<rparr>))"

text \<open>\<open>android::base::ReadFully\<close>: all \<open>n\<close> bytes, or failure with the stream drained.\<close>

definition ReadFully :: "Source \<Rightarrow> nat \<Rightarrow> byte list option \<times> Source" where
  "ReadFully s n =
     (if n \<le> length (pending s) then (Some (take n (pending s)), s\<lparr>pending := drop n (pending s)\<rparr>)
      else (None, s\<lparr>pending := []\<rparr>))"

text \<open>
  The destination descriptor: the file's bytes, the file position, the size the
  file may grow to before \<open>write\<close> fails (\<open>ENOSPC\<close>, \<open>EFBIG\<close>) and the largest
  offset the file system lets \<open>lseek\<close> set.
\<close>

record OutFile =
  data :: "byte list"
  pos :: nat
  size_limit :: nat
  max_offset :: nat

text \<open>
  The file-local \<open>Seek(fd, offset)\<close>: \<open>lseek(fd, offset, SEEK_SET) == offset\<close> with
  \<open>offset\<close> converted to the signed \<open>off_t\<close>.  For a negative offset and for one
  beyond the largest the file system allows, \<open>lseek\<close> returns -1 (\<open>EINVAL\<close>) and
  leaves the position where it was; the comparison then holds only for the offset -1.
\<close>

definition Seek :: "OutFile \<Rightarrow> u64 \<Rightarrow> bool \<times> OutFile" where
  "Seek f off =
     (if sint off < 0 \<or> max_offset f < unat off then (off = - 1, f)
      else (True, f\<lparr>pos := unat off\<rparr>))"

text \<open>\<open>android::base::WriteFully\<close>; a write past the end leaves a hole of zero bytes.\<close>

definition WriteFully :: "OutFile \<Rightarrow> byte list \<Rightarrow> OutFile option" where
  "WriteFully f buf =
     (if buf = [] then Some f
      else if size_limit f < pos f + length buf then None
      else Some (f\<lparr>data := take (pos f) (data f @ replicate (pos f - length (data f)) 0) @ buf
                            @ drop (pos f + length buf) (data f),
                    pos := pos f + length buf\<rparr>))"

record FdReader =
  fd :: Source
  bytes_read :: u64

definition FdReader_init :: "Source \<Rightarrow> FdReader" where
  "FdReader_init s = \<lparr>fd = s, bytes_read = 0\<rparr>"

definition Read :: "FdReader \<Rightarrow> u64 \<Rightarrow> byte list option \<times> FdReader" where
  "Read r num_bytes =
     (case ReadFully (fd r) (unat num_bytes) of
        (None, s) \<Rightarrow> (None, r\<lparr>fd := s\<rparr>)
      | (Some buf, s) \<Rightarrow> (Some buf, r\<lparr>fd := s, bytes_read := bytes_read r + num_bytes\<rparr>))"

definition kBufSize :: nat where "kBufSize = 32768"

text \<open>
  \<open>CopyTo(fd_dest, num_bytes)\<close>; \<open>fd_dest == -1\<close> is \<open>None\<close>.  The result is
  \<open>None\<close> for \<open>true\<close> and the kind of the failure for \<open>false\<close>.
\<close>

function CopyTo ::
  "FdReader \<Rightarrow> OutFile option \<Rightarrow> u64 \<Rightarrow> error option \<times> FdReader \<times> OutFile option" where
  "CopyTo r fd_dest num_bytes =
     (if 0 < num_bytes then
        (case sys_read (fd r) (min kBufSize (unat num_bytes)) of
           (Eof, s) \<Rightarrow> (Some TruncatedInput, r\<lparr>fd := s\<rparr>, fd_dest)
         | (Failed, s) \<Rightarrow> (Some IOError, r\<lparr>fd := s\<rparr>, fd_dest)
         | (Data buf, s) \<Rightarrow>
             (case fd_dest of
                None \<Rightarrow>
                  CopyTo (r\<lparr>fd := s, bytes_read := bytes_read r + of_nat (length buf)\<rparr>) None
                    (num_bytes - of_nat (length buf))
              | Some f \<Rightarrow>
                  (case WriteFully f buf of
                     None \<Rightarrow> (Some IOError, r\<lparr>fd := s\<rparr>, fd_dest)
                   | Some f' \<Rightarrow>
                       CopyTo (r\<lparr>fd := s, bytes_read := bytes_read r + of_nat (length buf)\<rparr>)
                         (Some f') (num_bytes - of_nat (length buf)))))
      else (None, r, fd_dest))"
  by pat_completeness auto
termination
proof (relation "measure (\<lambda>(r, fd_dest, num_bytes). unat num_bytes)", goal_cases)
  have dec: "unat (n - of_nat (length buf)) < unat n"
    if "0 < n" and "(Data buf, s) = sys_read src (min kBufSize (unat n))"
    for n :: u64 and buf s src
  proof -
    have n0: "0 < unat n" using that(1) by (simp add: word_less_nat_alt)
    have buf: "buf = take (min kBufSize (unat n)) (pending src)" and ne: "pending src \<noteq> []"
      using that(2) by (auto simp: sys_read_def split: if_splits stream_end.splits)
    have len: "0 < length buf" "length buf \<le> unat n"
      using ne n0 by (auto simp: buf kBufSize_def)
    have "unat n < 2 ^ LENGTH(64)" by (rule unsigned_less)
    then have lt: "length buf < 2 ^ LENGTH(64)"
      using len(2) by linarith
    have u: "unat (of_nat (length buf) :: u64) = length buf"
      using lt by (simp add: unat_of_nat)
    have "of_nat (length buf) \<le> n" using len(2) u by (simp add: word_le_nat_alt)
    then have "unat (n - of_nat (length buf)) = unat n - length buf"
      by (simp add: unat_sub u)
    then show ?thesis using len by linarith
  qed
  {
    case 1
    show ?case by simp
  next
    case 2
    then show ?case by (auto intro: dec)
  next
    case 3
    then show ?case by (auto intro: dec)
  }
qed

declare CopyTo.simps [simp del]

text \<open>\<open>FdReader::Seek\<close>: reads and discards up to the position, never backward.\<close>

definition FdReader_Seek :: "FdReader \<Rightarrow> u64 \<Rightarrow> error option \<times> FdReader" where
  "FdReader_Seek r off =
     (if off < bytes_read r then (Some InvalidSeek, r)
      else (case CopyTo r None (off - bytes_read r) of (res, r', _) \<Rightarrow> (res, r')))"

section \<open>Notes\<close>

text \<open>
  Modelled from the spec: \<open>google_breakpad::MemoryRange::Covers\<close> (breakpad's
  \<open>memory_range.h\<close> is not under src/), the bounds check behind every field access:
  an offset beyond the buffer is an out-of-range access.  The three conjuncts are the
  offset lying inside the buffer, the end not wrapping and the end lying inside it.
\<close>

definition Covers :: "byte list \<Rightarrow> nat \<Rightarrow> nat \<Rightarrow> bool" where
  "Covers buf sub_offset sub_length \<longleftrightarrow>
     sub_offset < length buf \<and> sub_offset + sub_length < 2 ^ 64 \<and>
     sub_offset + sub_length \<le> length buf"

text \<open>
  Modelled from the spec: \<open>MemoryRange::Subrange\<close> (not under src/); the empty range
  when the bounds check fails.
\<close>

definition Subrange :: "byte list \<Rightarrow> nat \<Rightarrow> nat \<Rightarrow> byte list" where
  "Subrange buf sub_offset sub_length =
     (if Covers buf sub_offset sub_length then take sub_length (drop sub_offset buf) else [])"

text \<open>
  Modelled from the spec: \<open>google_breakpad::ElfCoreDump::Note\<close> (breakpad's
  \<open>elf_core_dump.h\<close> is not under src/), the standard ELF note encoding: a 12-byte
  header of three 32-bit words (name size, description size, type), the name and the
  description each padded to a multiple of 4.  A note is the range from its header to
  the end of the buffer; it is valid when the header lies inside the range.
\<close>

definition AlignedSize :: "nat \<Rightarrow> nat" where
  "AlignedSize sz = (sz + 3) div 4 * 4"

definition Note_IsValid :: "byte list \<Rightarrow> bool" where
  "Note_IsValid content = Covers content 0 12"

definition Note_GetType :: "byte list \<Rightarrow> u32" where
  "Note_GetType content = (if Note_IsValid content then field32 content 8 else 0)"

definition Note_GetDescription :: "byte list \<Rightarrow> byte list" where
  "Note_GetDescription content =
     (if Note_IsValid content
      then Subrange content (AlignedSize (12 + unat (field32 content 0))) (unat (field32 content 4))
      else [])"

definition Note_GetNextNote :: "byte list \<Rightarrow> byte list" where
  "Note_GetNextNote content =
     (if Note_IsValid content
      then (let next_offset = AlignedSize (AlignedSize (12 + unat (field32 content 0))
                                           + unat (field32 content 4))
            in Subrange content next_offset (length content - next_offset))
      else [])"

definition NT_FILE :: u32 where "NT_FILE = 0x46494c45"
definition NT_AUXV :: u32 where "NT_AUXV = 6"

text \<open>
  The loop \<open>while (note.IsValid() && note.GetType() != type) note = note.GetNextNote()\<close>
  of \<open>GetFileMappings\<close> and \<open>WriteAuxv\<close>; the result is the note the loop stops at.
\<close>

function LocateNote :: "u32 \<Rightarrow> byte list \<Rightarrow> byte list" where
  "LocateNote ty note =
     (if Note_IsValid note \<and> Note_GetType note \<noteq> ty
      then LocateNote ty (Note_GetNextNote note) else note)"
  by pat_completeness auto
termination
proof (relation "measure (\<lambda>(ty, note). length note)", goal_cases)
  case 1
  show ?case by simp
next
  case (2 ty nt)
  then have v: "12 \<le> length nt" by (simp add: Note_IsValid_def Covers_def)
  have a: "12 \<le> AlignedSize (12 + n)" for n
    unfolding AlignedSize_def by presburger
  have b: "s \<le> AlignedSize s" for s
    unfolding AlignedSize_def by presburger
  have "12 \<le> AlignedSize (AlignedSize (12 + unat (field32 nt 0)) + unat (field32 nt 4))"
    using a [of "unat (field32 nt 0)"]
          b [of "AlignedSize (12 + unat (field32 nt 0)) + unat (field32 nt 4)"]
    by linarith
  then have "length (Note_GetNextNote nt) < length nt"
    using v by (auto simp: Note_GetNextNote_def Subrange_def Covers_def Let_def)
  then show ?case by simp
qed

declare LocateNote.simps [simp del]

text \<open>
  \<open>GetValueFromNote<T>(note, offset, default_value)\<close> on the description of the
  note, for \<open>T = long\<close> and \<open>T = char\<close>: the value at the offset, or the default when
  \<open>GetData<T>(offset)\<close> is null because the access is out of range.
\<close>

definition GetValueFromNote_long :: "byte list \<Rightarrow> u64 \<Rightarrow> u64 \<Rightarrow> u64" where
  "GetValueFromNote_long desc off default_value =
     (if Covers desc (unat off) 8 then field64 desc (unat off) else default_value)"

definition GetValueFromNote_char :: "byte list \<Rightarrow> u64 \<Rightarrow> byte \<Rightarrow> byte" where
  "GetValueFromNote_char desc off default_value =
     (if Covers desc (unat off) 1 then desc ! unat off else default_value)"

section \<open>GetFileMappings\<close>

definition kInvalidValue :: u64 where "kInvalidValue = - 1"

text \<open>
  The inner \<open>while (true)\<close> loop that reads one file name: the characters pushed to
  \<open>info.path\<close> and \<open>filename_pos\<close> after the loop.
\<close>

function ReadFileName :: "byte list \<Rightarrow> u64 \<Rightarrow> byte list \<times> u64" where
  "ReadFileName desc filename_pos =
     (let c = GetValueFromNote_char desc filename_pos 0
      in if c = 0 then ([], filename_pos + 1)
         else (case ReadFileName desc (filename_pos + 1) of (cs, p) \<Rightarrow> (c # cs, p)))"
  by pat_completeness auto
termination
proof (relation "measure (\<lambda>(desc, filename_pos). length desc - unat filename_pos)", goal_cases)
  case 1
  show ?case by simp
next
  case (2 desc filename_pos c)
  then have cov: "Covers desc (unat filename_pos) 1"
    by (auto simp: GetValueFromNote_char_def split: if_splits)
  then have "unat filename_pos + unat (1 :: u64) < 2 ^ LENGTH(64)"
    by (simp add: Covers_def)
  then have "unat (filename_pos + 1) = unat filename_pos + unat (1 :: u64)"
    by (rule unat_add_lem [THEN iffD1])
  moreover have "unat filename_pos < length desc" using cov by (simp add: Covers_def)
  ultimately show ?case by simp
qed

declare ReadFileName.simps [simp del]

text \<open>
  The \<open>for (long i = 0; i < file_count; ++i)\<close> loop.  The counter only takes the
  values from 0 up to a positive \<open>file_count\<close>, so it is a \<open>nat\<close>; the offsets are
  computed in \<open>size_t\<close>.  \<open>operator[]\<close> returns the entry already stored under the
  key, or inserts a value-initialised one.
\<close>

function GetFileMappings_loop ::
  "byte list \<Rightarrow> u64 \<Rightarrow> u64 \<Rightarrow> nat \<Rightarrow> u64 \<Rightarrow> FileMappings \<Rightarrow> error + FileMappings" where
  "GetFileMappings_loop desc file_count page_size i filename_pos file_mappings =
     (if int i < sint file_count then
        (let start_addr = GetValueFromNote_long desc (8 * (2 + 3 * of_nat i)) kInvalidValue;
             end_addr = GetValueFromNote_long desc (8 * (2 + 3 * of_nat i + 1)) kInvalidValue;
             page_off = GetValueFromNote_long desc (8 * (2 + 3 * of_nat i + 2)) kInvalidValue
         in if start_addr = kInvalidValue \<or> end_addr = kInvalidValue \<or> page_off = kInvalidValue
            then Inl ParseError
            else (let info = (case file_mappings (start_addr, end_addr) of
                                None \<Rightarrow> \<lparr>offset = 0, path = []\<rparr> | Some v \<Rightarrow> v);
                      name = ReadFileName desc filename_pos
                  in GetFileMappings_loop desc file_count page_size (i + 1) (snd name)
                       (file_mappings((start_addr, end_addr) \<mapsto>
                          \<lparr>offset = page_off * page_size, path = path info @ fst name\<rparr>))))
      else Inr file_mappings)"
  by pat_completeness auto
termination
  by (relation "measure (\<lambda>(desc, file_count, page_size, i, filename_pos, file_mappings).
                  nat (sint file_count) - i)") auto

declare GetFileMappings_loop.simps [simp del]

definition GetFileMappings :: "byte list \<Rightarrow> FileMappings \<Rightarrow> error + FileMappings" where
  "GetFileMappings note_buf file_mappings =
     (let note = LocateNote NT_FILE note_buf
      in if \<not> Note_IsValid note then Inl ParseError
         else (let desc = Note_GetDescription note;
                   file_count = GetValueFromNote_long desc 0 kInvalidValue;
                   page_size = GetValueFromNote_long desc 8 kInvalidValue
               in if file_count = kInvalidValue \<or> page_size = kInvalidValue then Inl ParseError
                  else GetFileMappings_loop desc file_count page_size 0
                         (8 * (2 + 3 * file_count)) file_mappings))"

section \<open>The file system\<close>

text \<open>
  What the run sees of its environment: the files by path, the paths at which a file
  can be created (the directory exists and can be written), the answer of \<open>statvfs\<close>
  for a path (\<open>f_bavail\<close>, \<open>f_frsize\<close>), the size a file may grow to, the largest
  file offset, the largest buffer the process can allocate, and the log of files
  created and removed, in order.
\<close>

datatype fs_event = Created string | Unlinked string

record World =
  files :: "string \<rightharpoonup> byte list"
  creatable :: "string \<Rightarrow> bool"
  statvfs_result :: "string \<Rightarrow> (u64 \<times> u64) option"
  max_file_size :: nat
  max_file_offset :: nat
  memory_limit :: nat
  events :: "fs_event list"

text \<open>
  \<open>open(path, O_WRONLY | O_CREAT | O_EXCL)\<close>: fails when the path exists
  (\<open>EEXIST\<close>) and when no file can be created there.
\<close>

definition open_excl :: "World \<Rightarrow> string \<Rightarrow> (World \<times> OutFile) option" where
  "open_excl w name =
     (if files w name \<noteq> None \<or> \<not> creatable w name then None
      else Some (w\<lparr>files := (files w)(name \<mapsto> []), events := events w @ [Created name]\<rparr>,
                 \<lparr>data = [], pos = 0, size_limit = max_file_size w,
                  max_offset = max_file_offset w\<rparr>))"

definition open_error :: "World \<Rightarrow> string \<Rightarrow> error" where
  "open_error w name = (if files w name \<noteq> None then WriteConflict else IOError)"

text \<open>Closing the descriptor leaves the bytes written in the file.\<close>

definition close_file :: "World \<Rightarrow> string \<Rightarrow> OutFile \<Rightarrow> World" where
  "close_file w name f = w\<lparr>files := (files w)(name \<mapsto> data f)\<rparr>"

definition unlink :: "World \<Rightarrow> string \<Rightarrow> World" where
  "unlink w name = w\<lparr>files := (files w)(name := None), events := events w @ [Unlinked name]\<rparr>"

text \<open>
  \<open>GetFreeDiskSpace\<close>: -1 when \<open>statvfs\<close> fails, which it does on a path that does
  not exist; otherwise the product of the two \<open>unsigned long\<close> fields as \<open>int64_t\<close>.
\<close>

definition GetFreeDiskSpace :: "World \<Rightarrow> string \<Rightarrow> u64" where
  "GetFreeDiskSpace w name =
     (if files w name = None then - 1
      else (case statvfs_result w name of None \<Rightarrow> - 1
            | Some (f_bavail, f_frsize) \<Rightarrow> f_bavail * f_frsize))"

definition kMaxCoredumpSize :: u64 where "kMaxCoredumpSize = 256 * 1024 * 1024"

section \<open>The proc files\<close>

definition WriteAuxv :: "World \<Rightarrow> byte list \<Rightarrow> string \<Rightarrow> error option \<times> World" where
  "WriteAuxv w note_buf output_path =
     (let note = LocateNote NT_AUXV note_buf
      in if \<not> Note_IsValid note then (Some ParseError, w)
         else (case open_excl w output_path of
                 None \<Rightarrow> (Some (open_error w output_path), w)
               | Some (w1, f) \<Rightarrow>
                   (case WriteFully f (Note_GetDescription note) of
                      None \<Rightarrow> (Some IOError, close_file w1 output_path f)
                    | Some f' \<Rightarrow> (None, close_file w1 output_path f'))))"

definition ascii :: "string \<Rightarrow> byte list" where
  "ascii cs = map of_char cs"

definition hexdigit :: "nat \<Rightarrow> byte" where
  "hexdigit d = of_char (''0123456789abcdef'' ! d)"

function hex_digits :: "nat \<Rightarrow> byte list" where
  "hex_digits n = (if n < 16 then [hexdigit n] else hex_digits (n div 16) @ [hexdigit (n mod 16)])"
  by pat_completeness auto
termination
  by (relation "measure (\<lambda>n. n)") auto

declare hex_digits.simps [simp del]

text \<open>\<open>%0<width>lx\<close> and \<open>%0<width>x\<close>: lower-case hexadecimal, zero-padded to the width.\<close>

definition fmt_x :: "nat \<Rightarrow> nat \<Rightarrow> byte list" where
  "fmt_x width n = replicate (width - length (hex_digits n)) (of_char CHR ''0'') @ hex_digits n"

text \<open>\<open>%s\<close> prints the string up to its first NUL.\<close>

definition fmt_s :: "byte list \<Rightarrow> byte list" where
  "fmt_s cs = takeWhile (\<lambda>c. c \<noteq> 0) cs"

text \<open>
  The text \<open>snprintf\<close> formats for one line,
  \<open>"%08lx-%08lx %c%c%c%c %08lx %02x:%02x %d %s\n"\<close>; the device pair and the inode
  are the constants 0 (\<open>%d\<close> of 0 is \<open>0\<close>).
\<close>

definition maps_line :: "FileRange \<Rightarrow> u32 \<Rightarrow> u64 \<Rightarrow> byte list \<Rightarrow> byte list" where
  "maps_line rng flags off name =
     fmt_x 8 (unat (fst rng)) @ ascii ''-'' @ fmt_x 8 (unat (snd rng)) @ ascii '' '' @
     [if flags AND PF_R \<noteq> 0 then of_char CHR ''r'' else of_char CHR ''-'',
      if flags AND PF_W \<noteq> 0 then of_char CHR ''w'' else of_char CHR ''-'',
      if flags AND PF_X \<noteq> 0 then of_char CHR ''x'' else of_char CHR ''-'',
      of_char CHR ''p''] @ ascii '' '' @
     fmt_x 8 (unat off) @ ascii '' '' @ fmt_x 2 0 @ ascii '':'' @ fmt_x 2 0 @ ascii '' 0 '' @
     fmt_s name @ [10]"

definition kLineBufSize :: nat where "kLineBufSize = 1024"

text \<open>
  What \<open>snprintf(buf, kBufSize, ...)\<close> leaves in the first \<open>len\<close> bytes of \<open>buf\<close>, for
  \<open>len \<le> kBufSize\<close>: the text, cut after \<open>kBufSize - 1\<close> characters and followed by
  the terminating NUL.
\<close>

definition snprintf_buf :: "byte list \<Rightarrow> byte list" where
  "snprintf_buf line = take (length line) (take (kLineBufSize - 1) line @ [0])"

text \<open>The range-based \<open>for\<close> loop of \<open>WriteMaps\<close> on the opened file.\<close>

fun WriteMaps_loop :: "Phdr list \<Rightarrow> FileMappings \<Rightarrow> OutFile \<Rightarrow> error option \<times> OutFile" where
  "WriteMaps_loop [] file_mappings f = (None, f)"
| "WriteMaps_loop (program_header # rest) file_mappings f =
     (if p_type program_header \<noteq> PT_LOAD then WriteMaps_loop rest file_mappings f
      else (let range = (p_vaddr program_header, p_vaddr program_header + p_memsz program_header);
                it = file_mappings range;
                off = (case it of Some info \<Rightarrow> offset info | None \<Rightarrow> 0);
                name = (case it of Some info \<Rightarrow> path info | None \<Rightarrow> []);
                line = maps_line range (p_flags program_header) off name
            in if kLineBufSize < length line then (Some IOError, f)
               else (case WriteFully f (snprintf_buf line) of
                       None \<Rightarrow> (Some IOError, f)
                     | Some f' \<Rightarrow> WriteMaps_loop rest file_mappings f')))"

definition WriteMaps ::
  "World \<Rightarrow> Phdr list \<Rightarrow> FileMappings \<Rightarrow> string \<Rightarrow> error option \<times> World" where
  "WriteMaps w program_headers file_mappings output_path =
     (case open_excl w output_path of
        None \<Rightarrow> (Some (open_error w output_path), w)
      | Some (w1, f) \<Rightarrow>
          (case WriteMaps_loop program_headers file_mappings f of
             (res, f') \<Rightarrow> (res, close_file w1 output_path f')))"

section \<open>ReadUntilNote\<close>

definition read_error :: "FdReader \<Rightarrow> error" where
  "read_error r = (case ending (fd r) of EndOfFile \<Rightarrow> TruncatedInput | ReadFailure \<Rightarrow> IOError)"

text \<open>The largest size \<open>std::vector<char>::max_size()\<close> allows.\<close>

definition vector_max_size :: nat where "vector_max_size = 2 ^ 63 - 1"

text \<open>
  \<open>std::vector::resize\<close> to \<open>n\<close> bytes succeeds when \<open>n\<close> is within \<open>max_size()\<close>
  and within what the process can allocate (\<open>alloc_limit\<close>); otherwise it throws,
  which ends the process.
\<close>

definition resize_ok :: "nat \<Rightarrow> nat \<Rightarrow> bool" where
  "resize_ok alloc_limit n \<longleftrightarrow> n \<le> vector_max_size \<and> n \<le> alloc_limit"

definition ReadUntilNote ::
  "nat \<Rightarrow> FdReader \<Rightarrow> error + (Ehdr \<times> Phdr list \<times> byte list \<times> FdReader)" where
  "ReadUntilNote alloc_limit reader =
     (case Read reader sizeof_Ehdr of
        (None, r1) \<Rightarrow> Inl (read_error r1)
      | (Some elf_header, r1) \<Rightarrow>
          if take 4 (e_ident elf_header) \<noteq> ELFMAG \<or>
             e_ident elf_header ! 4 \<noteq> kClass \<or>
             e_version elf_header \<noteq> EV_CURRENT \<or>
             e_type elf_header \<noteq> ET_CORE \<or>
             ucast (e_ehsize elf_header) \<noteq> sizeof_Ehdr \<or>
             ucast (e_phentsize elf_header) \<noteq> sizeof_Phdr
          then Inl ParseError
          else if \<not> resize_ok alloc_limit (unat sizeof_Phdr * unat (e_phnum elf_header))
          then Inl Aborted
          else (case FdReader_Seek r1 (e_phoff elf_header) of
                  (Some e, r2) \<Rightarrow> Inl e
                | (None, r2) \<Rightarrow>
                    (case Read r2 (sizeof_Phdr * ucast (e_phnum elf_header)) of
                       (None, r3) \<Rightarrow> Inl (read_error r3)
                     | (Some table, r3) \<Rightarrow>
                         (let program_headers = decode_Phdrs (unat (e_phnum elf_header)) table
                          in if length program_headers < 1 \<or>
                                p_type (program_headers ! 0) \<noteq> PT_NOTE
                             then Inl ParseError
                             else (let note_program_header = program_headers ! 0
                                   in if \<not> resize_ok alloc_limit
                                             (unat (p_filesz note_program_header))
                                      then Inl Aborted
                                      else
                                      case FdReader_Seek r3 (p_offset note_program_header) of
                                        (Some e, r4) \<Rightarrow> Inl e
                                      | (None, r4) \<Rightarrow>
                                          (case Read r4 (p_filesz note_program_header) of
                                             (None, r5) \<Rightarrow> Inl (read_error r5)
                                           | (Some note_buf, r5) \<Rightarrow>
                                               Inr (elf_header, program_headers, note_buf, r5)))))))"

section \<open>WriteCoredumpToFD and WriteCoredump\<close>

record CoredumpWriter =
  fd_src :: Source
  coredump_filename :: string
  proc_files_dir :: string

text \<open>The loop that writes the filtered program headers, from index \<open>i\<close> on.\<close>

function WriteProgramHeaders_loop ::
  "nat \<Rightarrow> Ehdr \<Rightarrow> Phdr list \<Rightarrow> OutFile \<Rightarrow> error option \<times> OutFile" where
  "WriteProgramHeaders_loop i elf_header filtered fd_dest =
     (if i < length filtered then
        (case Seek fd_dest (sizeof_Ehdr + of_nat i * ucast (e_phentsize elf_header)) of
           (False, f1) \<Rightarrow> (Some IOError, f1)
         | (True, f1) \<Rightarrow>
             (case WriteFully f1 (encode_Phdr (filtered ! i)) of
                None \<Rightarrow> (Some IOError, f1)
              | Some f2 \<Rightarrow> WriteProgramHeaders_loop (i + 1) elf_header filtered f2))
      else (None, fd_dest))"
  by pat_completeness auto
termination
  by (relation "measure (\<lambda>(i, elf_header, filtered, fd_dest). length filtered - i)") auto

declare WriteProgramHeaders_loop.simps [simp del]

text \<open>The loop that reads the remaining segments and writes the retained ones.\<close>

function CopySegments_loop ::
  "nat \<Rightarrow> Phdr list \<Rightarrow> Phdr list \<Rightarrow> FdReader \<Rightarrow> OutFile \<Rightarrow> error option \<times> FdReader \<times> OutFile" where
  "CopySegments_loop i program_headers filtered reader fd_dest =
     (if i < length filtered then
        (if 0 < p_filesz (filtered ! i) then
           (case FdReader_Seek reader (p_offset (program_headers ! i)) of
              (Some e, r1) \<Rightarrow> (Some e, r1, fd_dest)
            | (None, r1) \<Rightarrow>
                (case Seek fd_dest (p_offset (filtered ! i)) of
                   (False, f1) \<Rightarrow> (Some IOError, r1, f1)
                 | (True, f1) \<Rightarrow>
                     (case CopyTo r1 (Some f1) (p_filesz (filtered ! i)) of
                        (Some e, r2, f2) \<Rightarrow> (Some e, r2, case f2 of Some f \<Rightarrow> f | None \<Rightarrow> f1)
                      | (None, r2, f2) \<Rightarrow>
                          CopySegments_loop (i + 1) program_headers filtered r2
                            (case f2 of Some f \<Rightarrow> f | None \<Rightarrow> f1))))
         else CopySegments_loop (i + 1) program_headers filtered reader fd_dest)
      else (None, reader, fd_dest))"
  by pat_completeness auto
termination
  by (relation "measure (\<lambda>(i, program_headers, filtered, reader, fd_dest). length filtered - i)")
     auto

declare CopySegments_loop.simps [simp del]

text \<open>
  The part of \<open>WriteCoredumpToFD\<close> after the size check: the proc files, the ELF
  header, the program headers, the NOTE segment and the remaining segments.
\<close>

definition WriteOutput ::
  "CoredumpWriter \<Rightarrow> World \<Rightarrow> OutFile \<Rightarrow> Ehdr \<Rightarrow> Phdr list \<Rightarrow> Phdr list \<Rightarrow> byte list \<Rightarrow>
   FileMappings \<Rightarrow> FdReader \<Rightarrow> error option \<times> World \<times> OutFile" where
  "WriteOutput cw w fd_dest elf_header program_headers filtered note_buf file_mappings reader =
     (case WriteAuxv w note_buf (proc_files_dir cw @ ''/auxv'') of
        (Some e, w1) \<Rightarrow> (Some e, w1, fd_dest)
      | (None, w1) \<Rightarrow>
     (case WriteMaps w1 program_headers file_mappings (proc_files_dir cw @ ''/maps'') of
        (Some e, w2) \<Rightarrow> (Some e, w2, fd_dest)
      | (None, w2) \<Rightarrow>
     (case WriteFully fd_dest elf_header of
        None \<Rightarrow> (Some IOError, w2, fd_dest)
      | Some f1 \<Rightarrow>
     (case WriteProgramHeaders_loop 0 elf_header filtered f1 of
        (Some e, f2) \<Rightarrow> (Some e, w2, f2)
      | (None, f2) \<Rightarrow>
     (case Seek f2 (p_offset (filtered ! 0)) of
        (False, f3) \<Rightarrow> (Some IOError, w2, f3)
      | (True, f3) \<Rightarrow>
     (case WriteFully f3 note_buf of
        None \<Rightarrow> (Some IOError, w2, f3)
      | Some f4 \<Rightarrow>
     (case CopySegments_loop 1 program_headers filtered reader f4 of
        (res, r, f5) \<Rightarrow> (res, w2, f5))))))))"

text \<open>
  \<open>WriteCoredumpToFD\<close>: the value returned (\<open>Inl\<close> for -1), the file system and the
  destination descriptor afterwards.  \<open>FilterSegments\<close> is only reached with the
  non-empty list \<open>ReadUntilNote\<close> accepts.
\<close>

definition WriteCoredumpToFD ::
  "CoredumpWriter \<Rightarrow> World \<Rightarrow> OutFile \<Rightarrow> (error + u64) \<times> World \<times> OutFile" where
  "WriteCoredumpToFD cw w fd_dest =
     (case ReadUntilNote (memory_limit w) (FdReader_init (fd_src cw)) of
        Inl e \<Rightarrow> (Inl e, w, fd_dest)
      | Inr (elf_header, program_headers, note_buf, reader) \<Rightarrow>
     (case GetFileMappings note_buf Map.empty of
        Inl e \<Rightarrow> (Inl e, w, fd_dest)
      | Inr file_mappings \<Rightarrow>
     (case FilterSegments program_headers file_mappings of
        None \<Rightarrow> (Inl ParseError, w, fd_dest)
      | Some filtered \<Rightarrow>
          (let free_disk_space = GetFreeDiskSpace w (coredump_filename cw)
           in if sint free_disk_space < 0 then (Inl IOError, w, fd_dest)
              else (let coredump_size_limit = min (free_disk_space div 20) kMaxCoredumpSize;
                        expected_coredump_size = p_offset (last filtered) + p_filesz (last filtered)
                    in if coredump_size_limit < expected_coredump_size
                       then (Inl SizeLimitExceeded, w, fd_dest)
                       else (case WriteOutput cw w fd_dest elf_header program_headers filtered
                                    note_buf file_mappings reader of
                               (Some e, w', f) \<Rightarrow> (Inl e, w', f)
                             | (None, w', f) \<Rightarrow> (Inr expected_coredump_size, w', f)))))))"

text \<open>
  \<open>WriteCoredump\<close>: the destination is created exclusively, handed to
  \<open>WriteCoredumpToFD\<close>, closed, and unlinked when the result is -1.  When the process
  aborts inside \<open>WriteCoredumpToFD\<close> nothing is unlinked: the file stays as created.
\<close>

definition WriteCoredump :: "CoredumpWriter \<Rightarrow> World \<Rightarrow> (error + u64) \<times> World" where
  "WriteCoredump cw w =
     (case open_excl w (coredump_filename cw) of
        None \<Rightarrow> (Inl (open_error w (coredump_filename cw)), w)
      | Some (w1, fd_dest) \<Rightarrow>
          (case WriteCoredumpToFD cw w1 fd_dest of
             (Inl e, w2, f) \<Rightarrow>
               if e = Aborted then (Inl e, close_file w2 (coredump_filename cw) f)
               else (Inl e, unlink (close_file w2 (coredump_filename cw) f)
                            (coredump_filename cw))
           | (Inr n, w2, f) \<Rightarrow> (Inr n, close_file w2 (coredump_filename cw) f)))"

section \<open>The layout the filter computes\<close>

text \<open>
  Rounding up to the next multiple of the alignment on unbounded numbers: the value
  the offset computation of \<open>FilterSegments\<close> aims at when nothing wraps.
\<close>

definition align_up :: "nat \<Rightarrow> nat \<Rightarrow> nat" where
  "align_up n a = (if a \<noteq> 0 \<and> n mod a \<noteq> 0 then n + (a - n mod a) else n)"

definition offsets_nondecreasing :: "Phdr list \<Rightarrow> bool" where
  "offsets_nondecreasing phs = sorted (map p_offset phs)"

definition offsets_aligned :: "Phdr list \<Rightarrow> bool" where
  "offsets_aligned phs = list_all (\<lambda>e. p_align e = 0 \<or> p_offset e mod p_align e = 0) phs"

section \<open>Example inputs\<close>

text \<open>
  A core dump of three segments: the NOTE segment at 232, a LOAD segment that the
  NT_FILE note maps to a file, and a LOAD segment that is not file-backed.
\<close>

definition ex_phdrs :: "Phdr list" where
  "ex_phdrs =
    [\<lparr>p_type = PT_NOTE, p_flags = 0, p_offset = 232, p_vaddr = 0, p_paddr = 0,
      p_filesz = 100, p_memsz = 0, p_align = 0\<rparr>,
     \<lparr>p_type = PT_LOAD, p_flags = 5, p_offset = 336, p_vaddr = 0x1000, p_paddr = 0,
      p_filesz = 16, p_memsz = 0x1000, p_align = 16\<rparr>,
     \<lparr>p_type = PT_LOAD, p_flags = 6, p_offset = 352, p_vaddr = 0x7000, p_paddr = 0,
      p_filesz = 8, p_memsz = 0x1000, p_align = 16\<rparr>]"

definition ex_file_mappings :: FileMappings where
  "ex_file_mappings = [(0x1000, 0x2000) \<mapsto> \<lparr>offset = 0x3000, path = ascii ''/a''\<rparr>]"

definition ex_filtered :: "Phdr list" where
  "ex_filtered =
    [\<lparr>p_type = PT_NOTE, p_flags = 0, p_offset = 232, p_vaddr = 0, p_paddr = 0,
      p_filesz = 100, p_memsz = 0, p_align = 0\<rparr>,
     \<lparr>p_type = PT_LOAD, p_flags = 5, p_offset = 336, p_vaddr = 0x1000, p_paddr = 0,
      p_filesz = 0, p_memsz = 0x1000, p_align = 16\<rparr>,
     \<lparr>p_type = PT_LOAD, p_flags = 6, p_offset = 336, p_vaddr = 0x7000, p_paddr = 0,
      p_filesz = 8, p_memsz = 0x1000, p_align = 16\<rparr>]"

text \<open>
  Two headers whose first entry lies at the very end of the offset range and is not
  aligned to its own alignment.
\<close>

definition ex_wrap_phdrs :: "Phdr list" where
  "ex_wrap_phdrs =
    [\<lparr>p_type = PT_NOTE, p_flags = 0, p_offset = 0xFFFFFFFFFFFFFFFF, p_vaddr = 0, p_paddr = 0,
      p_filesz = 2, p_memsz = 0, p_align = 4\<rparr>,
     \<lparr>p_type = PT_LOAD, p_flags = 6, p_offset = 0, p_vaddr = 0x7000, p_paddr = 0,
      p_filesz = 8, p_memsz = 0x1000, p_align = 0\<rparr>]"

text \<open>A reader that has consumed 10 bytes and has 5 more pending.\<close>

definition ex_reader :: FdReader where
  "ex_reader = \<lparr>fd = \<lparr>pending = [1, 2, 3, 4, 5], ending = EndOfFile\<rparr>, bytes_read = 10\<rparr>"

text \<open>One note of the NOTE segment: the header, the name \<open>CORE\<close> and the description.\<close>

definition ex_note :: "u32 \<Rightarrow> byte list \<Rightarrow> byte list" where
  "ex_note ty desc = le_bytes 4 5 @ le_bytes 4 (length desc) @ le_bytes 4 (unat ty) @
     ascii ''CORE'' @ [0, 0, 0, 0] @ desc @ replicate (AlignedSize (length desc) - length desc) 0"

text \<open>An NT_FILE description whose two entries carry the same address range.\<close>

definition ex_dup_desc :: "byte list" where
  "ex_dup_desc = le_bytes 8 2 @ le_bytes 8 4096 @
     le_bytes 8 0x1000 @ le_bytes 8 0x2000 @ le_bytes 8 1 @
     le_bytes 8 0x1000 @ le_bytes 8 0x2000 @ le_bytes 8 2 @
     ascii ''/a'' @ [0] @ ascii ''/b'' @ [0]"

definition ex_dup_note :: "byte list" where
  "ex_dup_note = ex_note NT_FILE ex_dup_desc"

text \<open>The entry a decoded index holds for a range; \<open>None\<close> also when decoding failed.\<close>

definition mapping_at :: "FileRange \<Rightarrow> error + FileMappings \<Rightarrow> FileInfo option" where
  "mapping_at rng res = (case res of Inl e \<Rightarrow> None | Inr fm \<Rightarrow> fm rng)"

text \<open>An ELF header for \<open>phnum\<close> program headers and a NOTE program header.\<close>

definition ex_ehdr :: "nat \<Rightarrow> byte list" where
  "ex_ehdr phnum = ELFMAG @ [2, 1, 1, 0] @ replicate 8 0 @ le_bytes 2 4 @ le_bytes 2 183 @
     le_bytes 4 1 @ le_bytes 8 0 @ le_bytes 8 64 @ le_bytes 8 0 @ le_bytes 4 0 @
     le_bytes 2 64 @ le_bytes 2 56 @ le_bytes 2 phnum @ le_bytes 2 0 @ le_bytes 2 0 @ le_bytes 2 0"

definition ex_note_phdr :: "nat \<Rightarrow> nat \<Rightarrow> Phdr" where
  "ex_note_phdr off sz = \<lparr>p_type = PT_NOTE, p_flags = 0, p_offset = of_nat off, p_vaddr = 0,
     p_paddr = 0, p_filesz = of_nat sz, p_memsz = 0, p_align = 0\<rparr>"

text \<open>
  NT_FILE notes that end early: after the file count, after the first of two triples,
  and inside the only file name.
\<close>

definition ex_short_note :: "byte list" where
  "ex_short_note = ex_note NT_FILE (le_bytes 8 1)"

definition ex_one_triple_note :: "byte list" where
  "ex_one_triple_note = ex_note NT_FILE (le_bytes 8 2 @ le_bytes 8 4096 @
     le_bytes 8 0x1000 @ le_bytes 8 0x2000 @ le_bytes 8 3)"

definition ex_unterminated_note :: "byte list" where
  "ex_unterminated_note = ex_note NT_FILE (le_bytes 8 1 @ le_bytes 8 4096 @
     le_bytes 8 0x1000 @ le_bytes 8 0x2000 @ le_bytes 8 3 @ ascii ''/a'')"

text \<open>A core dump whose NT_FILE note stores -1 as the end address of its only entry.\<close>

definition ex_minus_one_note :: "byte list" where
  "ex_minus_one_note = ex_note NT_FILE (le_bytes 8 1 @ le_bytes 8 4096 @
     le_bytes 8 0x1000 @ replicate 8 0xFF @ le_bytes 8 3 @ ascii ''/a'' @ [0])"

definition ex_minus_one_cw :: CoredumpWriter where
  "ex_minus_one_cw =
     \<lparr>fd_src = \<lparr>pending = ex_ehdr 1 @ encode_Phdr (ex_note_phdr 120 64) @ ex_minus_one_note,
                 ending = EndOfFile\<rparr>,
      coredump_filename = ''/data/core'', proc_files_dir = ''/data/proc''\<rparr>"

text \<open>
  A file system without the output files, with \<open>blocks\<close> free blocks of 4096 bytes,
  and the same after the destination has been created.
\<close>

definition ex_world :: "u64 \<Rightarrow> World" where
  "ex_world blocks = \<lparr>files = Map.empty, creatable = (\<lambda>name. True),
     statvfs_result = (\<lambda>name. Some (blocks, 4096)),
     max_file_size = 1048576, max_file_offset = 1048576, memory_limit = 1048576, events = []\<rparr>"

definition ex_world_open :: "u64 \<Rightarrow> World" where
  "ex_world_open blocks = \<lparr>files = [''/data/core'' \<mapsto> []], creatable = (\<lambda>name. True),
     statvfs_result = (\<lambda>name. Some (blocks, 4096)),
     max_file_size = 1048576, max_file_offset = 1048576, memory_limit = 1048576,
     events = [Created ''/data/core'']\<rparr>"

definition ex_dest :: OutFile where
  "ex_dest = \<lparr>data = [], pos = 0, size_limit = 1048576, max_offset = 1048576\<rparr>"

section \<open>The maps text\<close>

text \<open>
  The line the spec gives for one LOAD header: start and end in hexadecimal, the
  permission characters and a constant \<open>p\<close>, the file offset in hexadecimal (0 when the
  range is not in the index, else the byte offset found), the placeholder device pair
  \<open>00:00\<close> and inode \<open>0\<close>, and the path found (nothing when the range is not in the
  index), ended by a newline.
\<close>

definition maps_entry_line :: "FileMappings \<Rightarrow> Phdr \<Rightarrow> byte list" where
  "maps_entry_line file_mappings ph =
     (let start_addr = p_vaddr ph; end_addr = p_vaddr ph + p_memsz ph;
          entry = file_mappings (start_addr, end_addr)
      in fmt_x 8 (unat start_addr) @ ascii ''-'' @ fmt_x 8 (unat end_addr) @ ascii '' '' @
         [if p_flags ph AND PF_R \<noteq> 0 then of_char CHR ''r'' else of_char CHR ''-'',
          if p_flags ph AND PF_W \<noteq> 0 then of_char CHR ''w'' else of_char CHR ''-'',
          if p_flags ph AND PF_X \<noteq> 0 then of_char CHR ''x'' else of_char CHR ''-'',
          of_char CHR ''p''] @ ascii '' '' @
         fmt_x 8 (unat (case entry of None \<Rightarrow> 0 | Some info \<Rightarrow> offset info)) @
         ascii '' 00:00 0 '' @
         (case entry of None \<Rightarrow> [] | Some info \<Rightarrow> fmt_s (path info)) @ [10])"

text \<open>One such line per LOAD header of the original list, in the original order.\<close>

definition maps_text :: "Phdr list \<Rightarrow> FileMappings \<Rightarrow> byte list" where
  "maps_text program_headers file_mappings =
     concat (map (maps_entry_line file_mappings)
                 (filter (\<lambda>ph. p_type ph = PT_LOAD) program_headers))"

text \<open>A file-backed LOAD header whose mapping starts at offset 0 of its file.\<close>

definition ex_load :: Phdr where
  "ex_load = \<lparr>p_type = PT_LOAD, p_flags = 5, p_offset = 336, p_vaddr = 0x1000, p_paddr = 0,
      p_filesz = 16, p_memsz = 0x1000, p_align = 16\<rparr>"

definition ex_file_mappings_zero :: FileMappings where
  "ex_file_mappings_zero = [(0x1000, 0x2000) \<mapsto> \<lparr>offset = 0, path = ascii ''/a''\<rparr>]"

definition file_at :: "string \<Rightarrow> World \<Rightarrow> byte list option" where
  "file_at name w = files w name"

text \<open>
  A core dump of two segments.  The NOTE segment at 176 holds an NT_FILE note with one
  entry, for the range \<open>(0x1000, 0x2000)\<close>, and an NT_AUXV note; the LOAD header and
  the bytes after the NOTE segment are given.
\<close>

definition ex_file_desc :: "byte list" where
  "ex_file_desc = le_bytes 8 1 @ le_bytes 8 4096 @
     le_bytes 8 0x1000 @ le_bytes 8 0x2000 @ le_bytes 8 3 @ ascii ''/a'' @ [0]"

definition ex_note_buf :: "byte list" where
  "ex_note_buf = ex_note NT_FILE ex_file_desc @ ex_note NT_AUXV (replicate 16 0)"

definition ex_load_phdr :: "nat \<Rightarrow> nat \<Rightarrow> nat \<Rightarrow> Phdr" where
  "ex_load_phdr vaddr off sz = \<lparr>p_type = PT_LOAD, p_flags = 6, p_offset = of_nat off,
     p_vaddr = of_nat vaddr, p_paddr = 0, p_filesz = of_nat sz, p_memsz = 0x1000, p_align = 16\<rparr>"

definition ex_cw :: "Phdr \<Rightarrow> byte list \<Rightarrow> CoredumpWriter" where
  "ex_cw load tail =
     \<lparr>fd_src = \<lparr>pending = ex_ehdr 2 @ encode_Phdr (ex_note_phdr 176 100) @ encode_Phdr load @
                            ex_note_buf @ tail,
                 ending = EndOfFile\<rparr>,
      coredump_filename = ''/data/core'', proc_files_dir = ''/data/proc''\<rparr>"

definition ex_stack_tail :: "byte list" where
  "ex_stack_tail = replicate 12 0 @ [1, 2, 3, 4, 5, 6, 7, 8]"

definition ex_stack_cw :: CoredumpWriter where
  "ex_stack_cw = ex_cw (ex_load_phdr 0x7000 288 8) ex_stack_tail"

section \<open>Observations of a run\<close>

text \<open>
  The first three steps of \<open>WriteCoredumpToFD\<close>: the ELF header, the program headers
  read and the filtered program headers, or the failure of the step that fails.
\<close>

definition ReadAndFilter ::
  "nat \<Rightarrow> CoredumpWriter \<Rightarrow> error + (Ehdr \<times> Phdr list \<times> Phdr list)" where
  "ReadAndFilter alloc_limit cw =
     (case ReadUntilNote alloc_limit (FdReader_init (fd_src cw)) of
        Inl e \<Rightarrow> Inl e
      | Inr (elf_header, program_headers, note_buf, reader) \<Rightarrow>
          (case GetFileMappings note_buf Map.empty of
             Inl e \<Rightarrow> Inl e
           | Inr file_mappings \<Rightarrow>
               (case FilterSegments program_headers file_mappings of
                  None \<Rightarrow> Inl ParseError
                | Some filtered \<Rightarrow> Inr (elf_header, program_headers, filtered))))"

text \<open>
  What a run of \<open>WriteCoredump\<close> leaves to observe: the value returned, the log of files
  created and removed, and the size of the file at a path if there is one.
\<close>

definition outcome :: "(error + u64) \<times> World \<Rightarrow> string \<Rightarrow> (error + u64) \<times> fs_event list \<times> nat option" where
  "outcome res name = (fst res, events (snd res), map_option length (files (snd res) name))"

text \<open>
  The bytes of the input consumed before the copy loop handles index \<open>i \<ge> 1\<close>, as the
  claim describes them: the end of the NOTE segment, then the end of the original bytes
  of the last segment copied before \<open>i\<close>.
\<close>

fun consumed_before :: "Phdr list \<Rightarrow> Phdr list \<Rightarrow> nat \<Rightarrow> u64" where
  "consumed_before program_headers filtered 0 = 0"
| "consumed_before program_headers filtered (Suc 0) =
     p_offset (program_headers ! 0) + p_filesz (program_headers ! 0)"
| "consumed_before program_headers filtered (Suc (Suc j)) =
     (if 0 < p_filesz (filtered ! Suc j)
      then p_offset (program_headers ! Suc j) + p_filesz (filtered ! Suc j)
      else consumed_before program_headers filtered (Suc j))"


text \<open>
  The core dump of \<open>ex_stack_cw\<close> with the offset of the LOAD segment set to 200,
  which lies inside the NOTE segment (176 to 276).
\<close>

definition ex_backward_cw :: CoredumpWriter where
  "ex_backward_cw = ex_cw (ex_load_phdr 0x7000 200 8) ex_stack_tail"

text \<open>
  What a run of \<open>WriteCoredumpToFD\<close> leaves to observe: the value returned and the
  size of the destination file.
\<close>

definition fd_outcome :: "(error + u64) \<times> World \<times> OutFile \<Rightarrow> (error + u64) \<times> nat" where
  "fd_outcome res = (fst res, length (data (snd (snd res))))"





section \<open>Properties of FilterSegments\<close>

lemma FilterSegments_loop_length:
  "length (FilterSegments_loop i phs fm out) = length out"
proof (induction i phs fm out rule: FilterSegments_loop.induct)
  case (1 i phs fm out)
  show ?case
    using "1" by (subst FilterSegments_loop.simps) simp
qed

lemma FilterSegments_loop_below:
  "j < i \<Longrightarrow> FilterSegments_loop i phs fm out ! j = out ! j"
proof (induction i phs fm out rule: FilterSegments_loop.induct)
  case (1 i phs fm out)
  show ?case
  proof (cases "i < length phs")
    case True
    then show ?thesis
      using "1.IH" [OF True] "1.prems"
      by (subst FilterSegments_loop.simps) simp
  next
    case False
    then show ?thesis by (subst FilterSegments_loop.simps) simp
  qed
qed

lemma FilterSegments_loop_at:
  "1 \<le> i \<Longrightarrow> i \<le> j \<Longrightarrow> j < length phs \<Longrightarrow> length out = length phs \<Longrightarrow>
   FilterSegments_loop i phs fm out ! j =
     FilterSegments_body fm (FilterSegments_loop i phs fm out ! (j - 1)) (phs ! j)"
proof (induction i phs fm out rule: FilterSegments_loop.induct)
  case (1 i phs fm out)
  let ?out' = "out[i := FilterSegments_body fm (out ! (i - 1)) (phs ! i)]"
  have lt: "i < length phs" using "1.prems" by simp
  have unfold: "FilterSegments_loop i phs fm out = FilterSegments_loop (i + 1) phs fm ?out'"
    using lt by (subst FilterSegments_loop.simps) simp
  show ?case
  proof (cases "i = j")
    case True
    have a: "FilterSegments_loop (i + 1) phs fm ?out' ! j = ?out' ! j"
      using True by (simp add: FilterSegments_loop_below)
    have b: "FilterSegments_loop (i + 1) phs fm ?out' ! (j - 1) = ?out' ! (j - 1)"
      using True "1.prems" by (simp add: FilterSegments_loop_below)
    have "?out' ! j = FilterSegments_body fm (?out' ! (j - 1)) (phs ! j)"
      using True "1.prems" by simp
    then show ?thesis
      unfolding unfold a b .
  next
    case False
    then have "i + 1 \<le> j" using "1.prems" by simp
    then show ?thesis
      using "1.IH" [OF lt] "1.prems" by (simp add: unfold)
  qed
qed

lemma FilterSegments_length:
  "FilterSegments phs fm = Some out \<Longrightarrow> length out = length phs"
  by (auto simp: FilterSegments_def FilterSegments_loop_length split: if_splits)

lemma FilterSegments_first:
  "FilterSegments phs fm = Some out \<Longrightarrow> out ! 0 = phs ! 0"
  by (auto simp: FilterSegments_def FilterSegments_loop_below split: if_splits)

lemma FilterSegments_step:
  "FilterSegments phs fm = Some out \<Longrightarrow> 1 \<le> j \<Longrightarrow> j < length phs \<Longrightarrow>
   out ! j = FilterSegments_body fm (out ! (j - 1)) (phs ! j)"
  using FilterSegments_loop_at [of 1 j phs _ fm]
  by (auto simp: FilterSegments_def split: if_splits)

lemma FilterSegments_total: "phs \<noteq> [] \<Longrightarrow> \<exists>out. FilterSegments phs fm = Some out"
  by (simp add: FilterSegments_def)

lemma FilterSegments_body_fields:
  "p_type (FilterSegments_body fm prev ph) = p_type ph"
  "p_flags (FilterSegments_body fm prev ph) = p_flags ph"
  "p_vaddr (FilterSegments_body fm prev ph) = p_vaddr ph"
  "p_paddr (FilterSegments_body fm prev ph) = p_paddr ph"
  "p_memsz (FilterSegments_body fm prev ph) = p_memsz ph"
  "p_align (FilterSegments_body fm prev ph) = p_align ph"
  "p_filesz (FilterSegments_body fm prev ph) =
     (if p_type ph = PT_LOAD \<and> (p_vaddr ph, p_vaddr ph + p_memsz ph) \<in> dom fm
      then 0 else p_filesz ph)"
  by (auto simp: FilterSegments_body_def Let_def)

lemma FilterSegments_body_offset:
  "p_offset (FilterSegments_body fm prev ph) =
     (if p_align ph \<noteq> 0 \<and> (p_offset prev + p_filesz prev) mod p_align ph \<noteq> 0
      then (p_offset prev + p_filesz prev)
           + (p_align ph - (p_offset prev + p_filesz prev) mod p_align ph)
      else p_offset prev + p_filesz prev)"
  by (auto simp: FilterSegments_body_def Let_def)

text \<open>
  C1.  For a non-empty program-header list, \<open>FilterSegments\<close> produces a list of the
  same length whose entry 0 is the input's entry 0; at every index from 1 on the type,
  flags, virtual address, physical address, memory size and alignment are those of the
  input, and the file size is 0 when the type is LOAD and the range
  \<open>(vaddr, vaddr + memsz)\<close> is a key of the file mappings, the input's file size
  otherwise.
\<close>

theorem FilterSegments_entries:
  assumes "program_headers \<noteq> []"
  shows "\<exists>filtered. FilterSegments program_headers file_mappings = Some filtered \<and>
           length filtered = length program_headers \<and>
           filtered ! 0 = program_headers ! 0 \<and>
           (\<forall>i. 1 \<le> i \<and> i < length program_headers \<longrightarrow>
              p_type (filtered ! i) = p_type (program_headers ! i) \<and>
              p_flags (filtered ! i) = p_flags (program_headers ! i) \<and>
              p_vaddr (filtered ! i) = p_vaddr (program_headers ! i) \<and>
              p_paddr (filtered ! i) = p_paddr (program_headers ! i) \<and>
              p_memsz (filtered ! i) = p_memsz (program_headers ! i) \<and>
              p_align (filtered ! i) = p_align (program_headers ! i) \<and>
              p_filesz (filtered ! i) =
                (if p_type (program_headers ! i) = PT_LOAD \<and>
                    (p_vaddr (program_headers ! i),
                     p_vaddr (program_headers ! i) + p_memsz (program_headers ! i))
                      \<in> dom file_mappings
                 then 0 else p_filesz (program_headers ! i)))"
proof -
  obtain filtered where f: "FilterSegments program_headers file_mappings = Some filtered"
    using FilterSegments_total [OF assms] by blast
  have "length filtered = length program_headers"
    using f by (rule FilterSegments_length)
  moreover have "filtered ! 0 = program_headers ! 0"
    using f by (rule FilterSegments_first)
  moreover have "\<And>i. 1 \<le> i \<Longrightarrow> i < length program_headers \<Longrightarrow>
      filtered ! i = FilterSegments_body file_mappings (filtered ! (i - 1)) (program_headers ! i)"
    using f by (rule FilterSegments_step)
  ultimately show ?thesis
    using f by (simp add: FilterSegments_body_fields)
qed

theorem FilterSegments_entries_witness:
  "ex_phdrs \<noteq> [] \<and> (1::nat) \<le> 1 \<and> 1 < length ex_phdrs \<and>
   (\<exists>filtered. FilterSegments ex_phdrs ex_file_mappings = Some filtered \<and>
      length filtered = 3 \<and> filtered ! 0 = ex_phdrs ! 0 \<and>
      p_filesz (filtered ! 1) = 0 \<and> p_filesz (filtered ! 2) = 8)"
proof -
  have ne: "ex_phdrs \<noteq> []" by (simp add: ex_phdrs_def)
  obtain filtered where
    f: "FilterSegments ex_phdrs ex_file_mappings = Some filtered" and
    l: "length filtered = length ex_phdrs" and
    z: "filtered ! 0 = ex_phdrs ! 0" and
    a: "\<forall>i. 1 \<le> i \<and> i < length ex_phdrs \<longrightarrow>
          p_filesz (filtered ! i) =
            (if p_type (ex_phdrs ! i) = PT_LOAD \<and>
                (p_vaddr (ex_phdrs ! i), p_vaddr (ex_phdrs ! i) + p_memsz (ex_phdrs ! i))
                  \<in> dom ex_file_mappings
             then 0 else p_filesz (ex_phdrs ! i))"
    using FilterSegments_entries [OF ne, of ex_file_mappings] by blast
  have "p_filesz (filtered ! 1) = 0"
    using a [rule_format, of 1] by (simp add: ex_phdrs_def ex_file_mappings_def)
  moreover have "p_filesz (filtered ! 2) = 8"
    using a [rule_format, of 2] by (simp add: ex_phdrs_def ex_file_mappings_def PT_LOAD_def)
  ultimately show ?thesis
    using f l z by (simp add: ex_phdrs_def)
qed

lemma align_up_pad: "a \<noteq> 0 \<Longrightarrow> n mod a \<noteq> 0 \<Longrightarrow> align_up n a = n + (a - n mod a)"
  unfolding align_up_def by (rule if_P) (rule conjI)

lemma align_up_same: "a = 0 \<or> n mod a = 0 \<Longrightarrow> align_up n a = n"
  unfolding align_up_def by auto

lemma align_up_ge: "n \<le> align_up n a"
proof (cases "a \<noteq> 0 \<and> n mod a \<noteq> 0")
  case True
  then have "align_up n a = n + (a - n mod a)" using align_up_pad [of a n] by auto
  then show ?thesis by (simp only: le_add1)
next
  case False
  then have "align_up n a = n" using align_up_same [of a n] by auto
  then show ?thesis by (simp only: order_refl)
qed

lemma align_up_dvd:
  assumes a: "a \<noteq> 0" shows "align_up n a mod a = 0"
proof (cases "n mod a = 0")
  case True
  then show ?thesis using align_up_same [of a n] by simp
next
  case False
  have lt: "n mod a < a" using a by simp
  have e: "n = n div a * a + n mod a" by simp
  have "n + (a - n mod a) = n div a * a + a"
    using lt e by linarith
  then have "(n + (a - n mod a)) mod a = 0" by simp
  then show ?thesis using a False align_up_pad [of a n] by simp
qed

lemma align_up_word:
  fixes po pf a :: u64
  assumes "align_up (unat po + unat pf) (unat a) < 2 ^ 64"
  shows "unat (if a \<noteq> 0 \<and> (po + pf) mod a \<noteq> 0
               then (po + pf) + (a - (po + pf) mod a) else po + pf)
         = align_up (unat po + unat pf) (unat a)"
proof -
  have le: "unat po + unat pf \<le> align_up (unat po + unat pf) (unat a)"
    by (rule align_up_ge)
  then have "unat po + unat pf < 2 ^ LENGTH(64)"
    using assms by simp
  then have s: "unat (po + pf) = unat po + unat pf"
    by (rule unat_add_lem [THEN iffD1])
  have m: "unat ((po + pf) mod a) = (unat po + unat pf) mod unat a"
    by (simp only: unat_mod s)
  have z: "((po + pf) mod a = 0) = ((unat po + unat pf) mod unat a = 0)"
    using m by (metis unat_eq_0)
  have za: "(a = 0) = (unat a = 0)" by (simp add: unat_eq_0)
  show ?thesis
  proof (cases "a \<noteq> 0 \<and> (po + pf) mod a \<noteq> 0")
    case False
    then have "unat a = 0 \<or> (unat po + unat pf) mod unat a = 0"
      using z za by auto
    then have "align_up (unat po + unat pf) (unat a) = unat po + unat pf"
      by (rule align_up_same)
    moreover have "(if a \<noteq> 0 \<and> (po + pf) mod a \<noteq> 0
                    then (po + pf) + (a - (po + pf) mod a) else po + pf) = po + pf"
      using False by (rule if_not_P)
    ultimately show ?thesis using s by simp
  next
    case True
    then have a0: "unat a \<noteq> 0" and mne: "(unat po + unat pf) mod unat a \<noteq> 0"
      using z za by auto
    have sub: "unat (a - (po + pf) mod a) = unat a - (unat po + unat pf) mod unat a"
      using unat_sub [of "(po + pf) mod a" a] m True
      by (simp add: order_less_imp_le word_mod_less_divisor word_neq_0_conv)
    have au: "align_up (unat po + unat pf) (unat a) =
              unat po + unat pf + (unat a - (unat po + unat pf) mod unat a)"
      using a0 mne by (rule align_up_pad)
    have "unat (po + pf) + unat (a - (po + pf) mod a) < 2 ^ LENGTH(64)"
      using assms unfolding au s sub by simp
    then have "unat ((po + pf) + (a - (po + pf) mod a)) =
          unat (po + pf) + unat (a - (po + pf) mod a)"
      by (rule unat_add_lem [THEN iffD1])
    then have r: "unat ((po + pf) + (a - (po + pf) mod a)) =
          unat po + unat pf + (unat a - (unat po + unat pf) mod unat a)"
      by (simp only: s sub)
    have c: "(if a \<noteq> 0 \<and> (po + pf) mod a \<noteq> 0
              then (po + pf) + (a - (po + pf) mod a) else po + pf)
             = (po + pf) + (a - (po + pf) mod a)"
      using True by (rule if_P)
    show ?thesis unfolding c au by (rule r)
  qed
qed

text \<open>
  C5, as the spec states it, fails: entry 0 keeps the offset of the input whatever its
  alignment, and the offset arithmetic wraps.  On the two headers of
  \<open>ex_wrap_phdrs\<close> the filtered offsets decrease and entry 0 is not aligned.
\<close>

theorem FilterSegments_offsets_counterexample:
  "map_option offsets_nondecreasing (FilterSegments ex_wrap_phdrs Map.empty) = Some False \<and>
   map_option offsets_aligned (FilterSegments ex_wrap_phdrs Map.empty) = Some False"
  by code_simp

text \<open>
  C5, amended.  At every index \<open>i \<ge> 1\<close> of the filtered list where the offset after
  the previous entry, rounded up to the alignment of entry \<open>i\<close>, fits the 64-bit offset,
  the offset of entry \<open>i\<close> is that rounded value: it is not below the offset of entry
  \<open>i - 1\<close>, and it is a multiple of the alignment when the alignment is not 0.
\<close>

theorem FilterSegments_offsets_amended:
  assumes "FilterSegments program_headers file_mappings = Some filtered"
    and "1 \<le> i" and "i < length filtered"
    and "align_up (unat (p_offset (filtered ! (i - 1))) + unat (p_filesz (filtered ! (i - 1))))
           (unat (p_align (filtered ! i))) < 2 ^ 64"
  shows "unat (p_offset (filtered ! i)) =
           align_up (unat (p_offset (filtered ! (i - 1))) + unat (p_filesz (filtered ! (i - 1))))
             (unat (p_align (filtered ! i))) \<and>
         p_offset (filtered ! (i - 1)) \<le> p_offset (filtered ! i) \<and>
         (p_align (filtered ! i) \<noteq> 0 \<longrightarrow> p_offset (filtered ! i) mod p_align (filtered ! i) = 0)"
proof -
  let ?prev = "filtered ! (i - 1)"
  let ?n = "unat (p_offset ?prev) + unat (p_filesz ?prev)"
  have len: "i < length program_headers"
    using assms(1,3) by (simp add: FilterSegments_length)
  have step: "filtered ! i = FilterSegments_body file_mappings ?prev (program_headers ! i)"
    using assms(1,2) len by (rule FilterSegments_step)
  have al: "p_align (filtered ! i) = p_align (program_headers ! i)"
    by (subst step) (rule FilterSegments_body_fields)
  have o1: "p_offset (filtered ! i) =
      (if p_align (filtered ! i) \<noteq> 0 \<and>
          (p_offset ?prev + p_filesz ?prev) mod p_align (filtered ! i) \<noteq> 0
       then (p_offset ?prev + p_filesz ?prev)
            + (p_align (filtered ! i) - (p_offset ?prev + p_filesz ?prev) mod p_align (filtered ! i))
       else p_offset ?prev + p_filesz ?prev)"
    unfolding al by (subst step) (rule FilterSegments_body_offset)
  have off: "unat (p_offset (filtered ! i)) = align_up ?n (unat (p_align (filtered ! i)))"
    by (subst o1) (rule align_up_word [OF assms(4)])
  have "unat (p_offset ?prev) \<le> ?n" by simp
  also have "\<dots> \<le> align_up ?n (unat (p_align (filtered ! i)))" by (rule align_up_ge)
  finally have mono: "p_offset ?prev \<le> p_offset (filtered ! i)"
    by (simp add: word_le_nat_alt off)
  have "p_offset (filtered ! i) mod p_align (filtered ! i) = 0" if "p_align (filtered ! i) \<noteq> 0"
  proof -
    have "unat (p_align (filtered ! i)) \<noteq> 0" using that by (simp add: unat_eq_0)
    then have "unat (p_offset (filtered ! i)) mod unat (p_align (filtered ! i)) = 0"
      unfolding off by (rule align_up_dvd)
    then have "unat (p_offset (filtered ! i) mod p_align (filtered ! i)) = 0"
      by (simp only: unat_mod)
    then show ?thesis by (simp only: unat_eq_0)
  qed
  then show ?thesis using off mono by blast
qed

theorem FilterSegments_offsets_amended_witness:
  "FilterSegments ex_phdrs ex_file_mappings = Some ex_filtered \<and>
   (1::nat) \<le> 1 \<and> 1 < length ex_filtered \<and>
   align_up (unat (p_offset (ex_filtered ! 0)) + unat (p_filesz (ex_filtered ! 0)))
     (unat (p_align (ex_filtered ! 1))) < 2 ^ 64 \<and>
   unat (p_offset (ex_filtered ! 1)) = 336 \<and>
   p_offset (ex_filtered ! 0) \<le> p_offset (ex_filtered ! 1) \<and>
   p_align (ex_filtered ! 1) \<noteq> 0 \<and>
   p_offset (ex_filtered ! 1) mod p_align (ex_filtered ! 1) = 0"
proof -
  have h1: "FilterSegments ex_phdrs ex_file_mappings = Some ex_filtered" by code_simp
  have h2: "(1::nat) \<le> 1" by simp
  have h3: "1 < length ex_filtered" by (simp add: ex_filtered_def)
  have h4: "align_up (unat (p_offset (ex_filtered ! (1 - 1))) + unat (p_filesz (ex_filtered ! (1 - 1))))
     (unat (p_align (ex_filtered ! 1))) < 2 ^ 64"
    by (simp add: ex_filtered_def align_up_def)
  have v: "align_up (unat (p_offset (ex_filtered ! (1 - 1))) + unat (p_filesz (ex_filtered ! (1 - 1))))
     (unat (p_align (ex_filtered ! 1))) = 336"
    by (simp add: ex_filtered_def align_up_def)
  have n0: "p_align (ex_filtered ! 1) \<noteq> 0" by (simp add: ex_filtered_def)
  show ?thesis
    using FilterSegments_offsets_amended [OF h1 h2 h3 h4] h1 h3 h4 v n0 by simp
qed

section \<open>Properties of the forward reader\<close>

lemma unat_of_nat_len: "n \<le> unat (w :: u64) \<Longrightarrow> unat (of_nat n :: u64) = n"
proof -
  assume a: "n \<le> unat w"
  have "unat w < 2 ^ LENGTH(64)" by (rule unsigned_less)
  then have "n < 2 ^ LENGTH(64)" using a by linarith
  then show ?thesis by (simp add: unat_of_nat)
qed

lemma unat_sub_of_nat: "n \<le> unat (w :: u64) \<Longrightarrow> unat (w - of_nat n) = unat w - n"
proof -
  assume a: "n \<le> unat w"
  have u: "unat (of_nat n :: u64) = n" using a by (rule unat_of_nat_len)
  then have "(of_nat n :: u64) \<le> w" using a by (simp add: word_le_nat_alt)
  then show ?thesis by (simp add: unat_sub u)
qed

lemma sys_read_cases:
  "0 < n \<Longrightarrow> sys_read s n =
     (if pending s = [] then (case ending s of EndOfFile \<Rightarrow> (Eof, s) | ReadFailure \<Rightarrow> (Failed, s))
      else (Data (take n (pending s)), s\<lparr>pending := drop n (pending s)\<rparr>))"
  by (simp add: sys_read_def)

lemma CopyTo_None:
  "CopyTo r None n =
     (if unat n \<le> length (pending (fd r))
      then (None, r\<lparr>fd := (fd r)\<lparr>pending := drop (unat n) (pending (fd r))\<rparr>,
                     bytes_read := bytes_read r + n\<rparr>, None)
      else (Some (read_error r),
            r\<lparr>fd := (fd r)\<lparr>pending := []\<rparr>,
              bytes_read := bytes_read r + of_nat (length (pending (fd r)))\<rparr>, None))"
proof (induction r "None :: OutFile option" n rule: CopyTo.induct)
  case (1 r n)
  define p where "p = pending (fd r)"
  show ?case
  proof (cases "0 < n")
    case False
    then have "n = 0" by (simp add: word_neq_0_conv [symmetric])
    then show ?thesis by (subst CopyTo.simps) simp
  next
    case True
    then have n0: "0 < unat n" by (simp add: word_less_nat_alt)
    define k where "k = min kBufSize (unat n)"
    have k0: "0 < k" using n0 by (simp add: k_def kBufSize_def)
    have kn: "k \<le> unat n" by (simp add: k_def)
    show ?thesis
    proof (cases "p = []")
      case True
      then have rd: "sys_read (fd r) k =
          (case ending (fd r) of EndOfFile \<Rightarrow> (Eof, fd r) | ReadFailure \<Rightarrow> (Failed, fd r))"
        using k0 by (simp add: sys_read_cases p_def)
      have nle: "\<not> unat n \<le> length (pending (fd r))"
        using True n0 by (simp add: p_def)
      have "CopyTo r None n = (Some (read_error r), r, None)"
        using \<open>0 < n\<close>
        by (subst CopyTo.simps)
           (simp add: k_def [symmetric] rd read_error_def split: stream_end.splits)
      moreover have "r\<lparr>fd := (fd r)\<lparr>pending := []\<rparr>,
              bytes_read := bytes_read r + of_nat (length (pending (fd r)))\<rparr> = r"
        using True by (simp add: p_def)
      ultimately show ?thesis using nle by (simp only: if_False)
    next
      case False
      define buf where "buf = take k p"
      define s where "s = (fd r)\<lparr>pending := drop k p\<rparr>"
      define r1 where "r1 = r\<lparr>fd := s, bytes_read := bytes_read r + of_nat (length buf)\<rparr>"
      define n1 where "n1 = n - of_nat (length buf)"
      have rd: "sys_read (fd r) k = (Data buf, s)"
        using False k0 by (simp add: sys_read_cases p_def buf_def s_def)
      have lbk: "length buf \<le> k" by (simp add: buf_def)
      have lb: "length buf \<le> unat n" using lbk kn by (rule le_trans)
      have un: "unat n1 = unat n - length buf"
        unfolding n1_def using lb by (rule unat_sub_of_nat)
      have unf: "CopyTo r None n = CopyTo r1 None n1"
        unfolding r1_def n1_def using \<open>0 < n\<close>
        by (subst CopyTo.simps) (simp add: k_def [symmetric] rd)
      have rd': "(Data buf, s) = sys_read (fd r) (min kBufSize (unat n))"
        using rd by (simp add: k_def)
      note ih0 = "1.hyps" [OF \<open>0 < n\<close> rd' refl refl]
      have ih: "CopyTo r1 None n1 =
         (if unat n1 \<le> length (pending (fd r1))
          then (None, r1\<lparr>fd := (fd r1)\<lparr>pending := drop (unat n1) (pending (fd r1))\<rparr>,
                     bytes_read := bytes_read r1 + n1\<rparr>, None)
          else (Some (read_error r1),
            r1\<lparr>fd := (fd r1)\<lparr>pending := []\<rparr>,
              bytes_read := bytes_read r1 + of_nat (length (pending (fd r1)))\<rparr>, None))"
        unfolding r1_def n1_def by (rule ih0)
      have pr1: "pending (fd r1) = drop k p" by (simp add: r1_def s_def)
      have er: "read_error r1 = read_error r" by (simp add: r1_def s_def read_error_def)
      show ?thesis
      proof (cases "k \<le> length p")
        case True
        then have lk: "length buf = k" by (simp add: buf_def)
        have un': "unat n1 = unat n - k" using un lk by simp
        have c: "(unat n1 \<le> length (drop k p)) = (unat n \<le> length p)"
          unfolding un' length_drop using True kn by linarith
        have bb: "bytes_read r + of_nat k + n1 = bytes_read r + n"
          by (simp add: n1_def lk)
        have e: "bytes_read r + of_nat k + of_nat (length p - k) = bytes_read r + of_nat (length p)"
          using True by (simp add: add.assoc flip: of_nat_add)
        show ?thesis
        proof (cases "unat n \<le> length p")
          case True
          then have "CopyTo r1 None n1 =
            (None, r1\<lparr>fd := (fd r1)\<lparr>pending := drop (unat n1) (pending (fd r1))\<rparr>,
                     bytes_read := bytes_read r1 + n1\<rparr>, None)"
            using ih c pr1 by simp
          moreover have "r1\<lparr>fd := (fd r1)\<lparr>pending := drop (unat n1) (pending (fd r1))\<rparr>,
                     bytes_read := bytes_read r1 + n1\<rparr> =
                r\<lparr>fd := (fd r)\<lparr>pending := drop (unat n) p\<rparr>, bytes_read := bytes_read r + n\<rparr>"
            using un' kn by (simp add: r1_def s_def lk bb)
          ultimately show ?thesis using True unfolding unf p_def by simp
        next
          case False
          then have "CopyTo r1 None n1 =
            (Some (read_error r1),
             r1\<lparr>fd := (fd r1)\<lparr>pending := []\<rparr>,
                bytes_read := bytes_read r1 + of_nat (length (pending (fd r1)))\<rparr>, None)"
            using ih c pr1 by simp
          moreover have "r1\<lparr>fd := (fd r1)\<lparr>pending := []\<rparr>,
                bytes_read := bytes_read r1 + of_nat (length (pending (fd r1)))\<rparr> =
               r\<lparr>fd := (fd r)\<lparr>pending := []\<rparr>, bytes_read := bytes_read r + of_nat (length p)\<rparr>"
            by (simp add: r1_def s_def lk e)
          ultimately show ?thesis using False er unfolding unf p_def by simp
        qed
      next
        case False
        then have klt: "length p < k" by simp
        then have lk: "length buf = length p" by (simp add: buf_def)
        have nle: "\<not> unat n \<le> length p" using klt kn by simp
        have dr: "drop k p = []" using klt by simp
        have pos: "0 < unat n1" using un lk nle by simp
        then have "\<not> unat n1 \<le> length (pending (fd r1))" by (simp add: pr1 dr)
        then have "CopyTo r1 None n1 =
            (Some (read_error r1),
             r1\<lparr>fd := (fd r1)\<lparr>pending := []\<rparr>,
                bytes_read := bytes_read r1 + of_nat (length (pending (fd r1)))\<rparr>, None)"
          using ih by simp
        moreover have "r1\<lparr>fd := (fd r1)\<lparr>pending := []\<rparr>,
                bytes_read := bytes_read r1 + of_nat (length (pending (fd r1)))\<rparr> =
               r\<lparr>fd := (fd r)\<lparr>pending := []\<rparr>, bytes_read := bytes_read r + of_nat (length p)\<rparr>"
          by (simp add: r1_def s_def lk dr)
        ultimately show ?thesis using nle er unfolding unf p_def by simp
      qed
    qed
  qed
qed

text \<open>
  C8.  A seek of the forward reader to an offset below the bytes already consumed fails
  with \<open>InvalidSeek\<close> and leaves the reader, its counter included, as it was.  A seek
  to an offset at or beyond the counter discards exactly the difference and leaves the
  counter at the offset when that many bytes are pending; it fails exactly when the
  stream ends before them, by end of file or by a read error.
\<close>

theorem FdReader_Seek_forward_only:
  "(off < bytes_read r \<longrightarrow> FdReader_Seek r off = (Some InvalidSeek, r)) \<and>
   (bytes_read r \<le> off \<and> unat (off - bytes_read r) \<le> length (pending (fd r)) \<longrightarrow>
      FdReader_Seek r off =
        (None, r\<lparr>fd := (fd r)\<lparr>pending := drop (unat (off - bytes_read r)) (pending (fd r))\<rparr>,
                  bytes_read := off\<rparr>)) \<and>
   (bytes_read r \<le> off \<and> length (pending (fd r)) < unat (off - bytes_read r) \<longrightarrow>
      fst (FdReader_Seek r off) = Some (read_error r))"
  by (auto simp: FdReader_Seek_def CopyTo_None)

theorem FdReader_Seek_forward_only_witness:
  "(5 :: u64) < bytes_read ex_reader \<and> FdReader_Seek ex_reader 5 = (Some InvalidSeek, ex_reader) \<and>
   bytes_read ex_reader \<le> 13 \<and> unat (13 - bytes_read ex_reader) \<le> length (pending (fd ex_reader)) \<and>
   FdReader_Seek ex_reader 13 =
     (None, \<lparr>fd = \<lparr>pending = [4, 5], ending = EndOfFile\<rparr>, bytes_read = 13\<rparr>) \<and>
   bytes_read ex_reader \<le> 20 \<and> length (pending (fd ex_reader)) < unat (20 - bytes_read ex_reader) \<and>
   fst (FdReader_Seek ex_reader 20) = Some TruncatedInput"
  using FdReader_Seek_forward_only [of 5 ex_reader]
        FdReader_Seek_forward_only [of 13 ex_reader]
        FdReader_Seek_forward_only [of 20 ex_reader]
  by (simp add: ex_reader_def read_error_def)

lemma WriteFully_props:
  assumes "WriteFully f buf = Some f'"
  shows "pos f' = pos f + length buf" "size_limit f' = size_limit f"
    "length (data f') = (if buf = [] then length (data f) else max (length (data f)) (pos f + length buf))"
  using assms by (auto simp: WriteFully_def split: if_splits)

lemma size_after_two:
  fixes a p L N s a1 p1 :: nat
  assumes "a1 = max a (p + L)" "p1 = p + L" "L \<le> N"
    and "s = (if N - L = 0 then a1 else max a1 (p1 + (N - L)))"
  shows "s = max a (p + N)"
proof (cases "N - L = 0")
  case True
  then have "N = L" using assms(3) by linarith
  then show ?thesis using assms(1,4) True by simp
next
  case False
  then have "s = max a1 (p1 + (N - L))" using assms(4) by simp
  then show ?thesis unfolding assms(1,2) using assms(3) by linarith
qed

lemma CopyTo_Some:
  "CopyTo r fd_dest n = (None, r', d) \<Longrightarrow> fd_dest = Some f \<Longrightarrow>
   unat n \<le> length (pending (fd r)) \<and>
   r' = r\<lparr>fd := (fd r)\<lparr>pending := drop (unat n) (pending (fd r))\<rparr>, bytes_read := bytes_read r + n\<rparr> \<and>
   (\<exists>f'. d = Some f' \<and> pos f' = pos f + unat n \<and> size_limit f' = size_limit f \<and>
      length (data f') = (if n = 0 then length (data f) else max (length (data f)) (pos f + unat n)))"
proof (induction r fd_dest n arbitrary: f rule: CopyTo.induct)
  case (1 r fd_dest n)
  show ?case
  proof (cases "0 < n")
    case False
    then have "n = 0" by (simp add: word_neq_0_conv [symmetric])
    then show ?thesis using "1.prems" by (subst (asm) CopyTo.simps) auto
  next
    case True
    then have n0: "0 < unat n" by (simp add: word_less_nat_alt)
    define k where "k = min kBufSize (unat n)"
    define p where "p = pending (fd r)"
    define buf where "buf = take k p"
    define s where "s = (fd r)\<lparr>pending := drop k p\<rparr>"
    define r1 where "r1 = r\<lparr>fd := s, bytes_read := bytes_read r + of_nat (length buf)\<rparr>"
    define n1 where "n1 = n - of_nat (length buf)"
    have k0: "0 < k" using n0 by (simp add: k_def kBufSize_def)
    have kn: "k \<le> unat n" by (simp add: k_def)
    have ne: "p \<noteq> []"
    proof
      assume "p = []"
      then have "sys_read (fd r) k = (Eof, fd r) \<or> sys_read (fd r) k = (Failed, fd r)"
        using k0 by (auto simp: sys_read_cases p_def split: stream_end.splits)
      then show False
        using "1.prems"(1) True
        by (subst (asm) CopyTo.simps) (auto simp: k_def [symmetric])
    qed
    have rd: "sys_read (fd r) k = (Data buf, s)"
      using ne k0 by (simp add: sys_read_cases p_def buf_def s_def)
    have bne: "buf \<noteq> []" using ne k0 by (simp add: buf_def)
    have lbk: "length buf \<le> k" by (simp add: buf_def)
    have lb: "length buf \<le> unat n" using lbk kn by (rule le_trans)
    have unf: "CopyTo r (Some f) n =
         (case WriteFully f buf of None \<Rightarrow> (Some IOError, r\<lparr>fd := s\<rparr>, Some f)
          | Some f1 \<Rightarrow> CopyTo r1 (Some f1) n1)"
      unfolding r1_def n1_def using True
      by (subst CopyTo.simps) (simp add: k_def [symmetric] rd)
    obtain f1 where w: "WriteFully f buf = Some f1"
      and rec: "CopyTo r1 (Some f1) n1 = (None, r', d)"
      using "1.prems" unf by (auto split: option.splits)
    have un: "unat n1 = unat n - length buf"
      unfolding n1_def using lb by (rule unat_sub_of_nat)
    have rd': "(Data buf, s) = sys_read (fd r) (min kBufSize (unat n))"
      using rd by (simp add: k_def)
    have rec': "CopyTo (r\<lparr>fd := s, bytes_read := bytes_read r + of_nat (length buf)\<rparr>) (Some f1)
              (n - of_nat (length buf)) = (None, r', d)"
      using rec by (simp only: r1_def n1_def)
    note ih0 = "1.IH"(2) [OF True rd' refl \<open>fd_dest = Some f\<close> w rec' refl]
    have ih: "unat n1 \<le> length (pending (fd r1)) \<and>
       r' = r1\<lparr>fd := (fd r1)\<lparr>pending := drop (unat n1) (pending (fd r1))\<rparr>,
                 bytes_read := bytes_read r1 + n1\<rparr> \<and>
       (\<exists>f'. d = Some f' \<and> pos f' = pos f1 + unat n1 \<and> size_limit f' = size_limit f1 \<and>
          length (data f') = (if n1 = 0 then length (data f1)
                              else max (length (data f1)) (pos f1 + unat n1)))"
      unfolding r1_def n1_def by (rule ih0)
    have pr1: "pending (fd r1) = drop k p" by (simp add: r1_def s_def)
    have le: "unat n - length buf \<le> length p - k"
      using ih un pr1 by simp
    have kp: "k \<le> length p"
    proof (rule ccontr)
      assume "\<not> k \<le> length p"
      then have c: "length p < k" by simp
      then have "length buf = length p" by (simp add: buf_def)
      then have "unat n \<le> length p" using le c by simp
      then show False using c kn by simp
    qed
    then have lk: "length buf = k" by (simp add: buf_def)
    have c1: "unat n \<le> length p" using le lk kp kn by simp
    have dd: "drop (unat n1) (drop k p) = drop (unat n) p"
      unfolding un lk using kn by simp
    have bb: "bytes_read r + of_nat k + n1 = bytes_read r + n"
      by (simp add: n1_def lk)
    have "r' = r1\<lparr>fd := (fd r1)\<lparr>pending := drop (unat n1) (pending (fd r1))\<rparr>,
                 bytes_read := bytes_read r1 + n1\<rparr>"
      using ih by (rule conjunct2 [THEN conjunct1])
    then have c2: "r' = r\<lparr>fd := (fd r)\<lparr>pending := drop (unat n) p\<rparr>, bytes_read := bytes_read r + n\<rparr>"
      using un lk kn by (simp add: r1_def s_def bb)
    obtain f' where d: "d = Some f'" and p': "pos f' = pos f1 + unat n1"
      and sl: "size_limit f' = size_limit f1"
      and ln: "length (data f') = (if n1 = 0 then length (data f1)
                 else max (length (data f1)) (pos f1 + unat n1))"
      using ih by blast
    have z: "(n1 = 0) = (unat n - length buf = 0)"
      using un by (metis unat_eq_0)
    have pf1: "pos f1 = pos f + length buf" using WriteFully_props(1) [OF w] .
    have c3: "pos f' = pos f + unat n"
      unfolding p' pf1 un using lb by (rule_tac trans [OF add.assoc]) simp
    have c4: "size_limit f' = size_limit f"
      using sl WriteFully_props(2) [OF w] by (rule trans)
    have c5: "length (data f') = max (length (data f)) (pos f + unat n)"
    proof (rule size_after_two)
      show "length (data f1) = max (length (data f)) (pos f + length buf)"
        using WriteFully_props(3) [OF w] by (simp only: bne if_False)
      show "pos f1 = pos f + length buf" by (rule pf1)
      show "length buf \<le> unat n" by (rule lb)
      show "length (data f') = (if unat n - length buf = 0 then length (data f1)
                 else max (length (data f1)) (pos f1 + (unat n - length buf)))"
        using ln by (simp only: z un)
    qed
    have nz: "n \<noteq> 0" using True by simp
    have c1': "unat n \<le> length (pending (fd r))" using c1 by (simp only: p_def)
    have c2': "r' = r\<lparr>fd := (fd r)\<lparr>pending := drop (unat n) (pending (fd r))\<rparr>,
                      bytes_read := bytes_read r + n\<rparr>"
      using c2 by (simp only: p_def)
    have c6: "length (data f') = (if n = 0 then length (data f) else max (length (data f)) (pos f + unat n))"
      using c5 nz by (simp only: if_False)
    show ?thesis
      using c1' c2' d c3 c4 c6 by blast
  qed
qed

section \<open>Properties of GetFileMappings\<close>

text \<open>
  C3.  The code at an NT_FILE note with two entries for the range
  \<open>(0x1000, 0x2000)\<close>, the first with page offset 1 and name \<open>/a\<close>, the second with
  page offset 2 and name \<open>/b\<close>: the byte offset stored is that of the second entry,
  the path stored is \<open>/a/b\<close>, the second name appended to the first.
\<close>

theorem GetFileMappings_duplicate_range:
  "mapping_at (0x1000, 0x2000) (GetFileMappings ex_dup_note Map.empty)
     = Some \<lparr>offset = 0x2000, path = ascii ''/a/b''\<rparr>"
  by code_simp

lemma GetFileMappings_loop_invalid:
  assumes "i0 \<le> i" "int i < sint fc"
    and "GetValueFromNote_long desc (8 * (2 + 3 * of_nat i)) kInvalidValue = kInvalidValue \<or>
         GetValueFromNote_long desc (8 * (2 + 3 * of_nat i + 1)) kInvalidValue = kInvalidValue \<or>
         GetValueFromNote_long desc (8 * (2 + 3 * of_nat i + 2)) kInvalidValue = kInvalidValue"
  shows "GetFileMappings_loop desc fc ps i0 fpos fm = Inl ParseError"
  using assms
proof (induction desc fc ps i0 fpos fm rule: GetFileMappings_loop.induct)
  case (1 desc fc ps i0 fpos fm)
  have lt: "int i0 < sint fc" using "1.prems"(1,2) by linarith
  show ?case
  proof (cases "GetValueFromNote_long desc (8 * (2 + 3 * of_nat i0)) kInvalidValue = kInvalidValue \<or>
         GetValueFromNote_long desc (8 * (2 + 3 * of_nat i0 + 1)) kInvalidValue = kInvalidValue \<or>
         GetValueFromNote_long desc (8 * (2 + 3 * of_nat i0 + 2)) kInvalidValue = kInvalidValue")
    case True
    then show ?thesis using lt by (subst GetFileMappings_loop.simps) (simp add: Let_def)
  next
    case False
    then have "i0 \<noteq> i" using "1.prems"(3) by auto
    then have le: "i0 + 1 \<le> i" using "1.prems"(1) by simp
    have "GetFileMappings_loop desc fc ps i0 fpos fm =
          GetFileMappings_loop desc fc ps (i0 + 1) (snd (ReadFileName desc fpos))
            (fm((GetValueFromNote_long desc (8 * (2 + 3 * of_nat i0)) kInvalidValue,
                 GetValueFromNote_long desc (8 * (2 + 3 * of_nat i0 + 1)) kInvalidValue) \<mapsto>
              \<lparr>offset = GetValueFromNote_long desc (8 * (2 + 3 * of_nat i0 + 2)) kInvalidValue * ps,
               path = path (case fm (GetValueFromNote_long desc (8 * (2 + 3 * of_nat i0)) kInvalidValue,
                 GetValueFromNote_long desc (8 * (2 + 3 * of_nat i0 + 1)) kInvalidValue) of
                                None \<Rightarrow> \<lparr>offset = 0, path = []\<rparr> | Some v \<Rightarrow> v)
                        @ fst (ReadFileName desc fpos)\<rparr>))"
      using lt False by (subst GetFileMappings_loop.simps) (simp add: Let_def)
    also have "\<dots> = Inl ParseError"
      using lt False le "1.prems"(2,3) by (intro "1.IH") (auto simp: Let_def)
    finally show ?thesis .
  qed
qed

lemma GetFileMappings_invalid_header:
  assumes "desc = Note_GetDescription (LocateNote NT_FILE note_buf)"
    and "GetValueFromNote_long desc 0 kInvalidValue = kInvalidValue \<or>
         GetValueFromNote_long desc 8 kInvalidValue = kInvalidValue"
  shows "GetFileMappings note_buf fm = Inl ParseError"
  using assms by (auto simp: GetFileMappings_def Let_def)

lemma GetFileMappings_invalid_triple:
  assumes "desc = Note_GetDescription (LocateNote NT_FILE note_buf)"
    and "int i < sint (GetValueFromNote_long desc 0 kInvalidValue)"
    and "GetValueFromNote_long desc (8 * (2 + 3 * of_nat i)) kInvalidValue = kInvalidValue \<or>
         GetValueFromNote_long desc (8 * (2 + 3 * of_nat i + 1)) kInvalidValue = kInvalidValue \<or>
         GetValueFromNote_long desc (8 * (2 + 3 * of_nat i + 2)) kInvalidValue = kInvalidValue"
  shows "GetFileMappings note_buf fm = Inl ParseError"
proof -
  have "GetFileMappings_loop desc (GetValueFromNote_long desc 0 kInvalidValue) ps 0 fpos fm
        = Inl ParseError" for ps fpos
    using assms(2,3) by (intro GetFileMappings_loop_invalid [of 0 i]) auto
  then show ?thesis
    using assms(1) by (simp add: GetFileMappings_def Let_def)
qed


lemma triple_offset_cases:
  assumes "k < 3"
  shows "(8 * (2 + 3 * of_nat i + of_nat k) :: u64) = 8 * (2 + 3 * of_nat i) \<or>
         (8 * (2 + 3 * of_nat i + of_nat k) :: u64) = 8 * (2 + 3 * of_nat i + 1) \<or>
         (8 * (2 + 3 * of_nat i + of_nat k) :: u64) = 8 * (2 + 3 * of_nat i + 2)"
proof -
  have "k = 0 \<or> k = 1 \<or> k = 2" using assms by linarith
  then show ?thesis by auto
qed

lemma GetFileMappings_invalid_word:
  fixes off :: u64
  assumes "desc = Note_GetDescription (LocateNote NT_FILE note_buf)"
    and "off = 0 \<or> off = 8 \<or>
         (\<exists>i k. int i < sint (GetValueFromNote_long desc 0 kInvalidValue) \<and> k < 3 \<and>
                off = 8 * (2 + 3 * of_nat i + of_nat k))"
    and "GetValueFromNote_long desc off kInvalidValue = kInvalidValue"
  shows "GetFileMappings note_buf fm = Inl ParseError"
proof -
  consider "off = 0 \<or> off = 8"
    | i k where "int i < sint (GetValueFromNote_long desc 0 kInvalidValue)" "k < 3"
        "off = 8 * (2 + 3 * of_nat i + of_nat k)"
    using assms(2) by blast
  then show ?thesis
  proof cases
    case 1
    then show ?thesis
      using assms(3) by (intro GetFileMappings_invalid_header [OF assms(1)]) auto
  next
    case 2
    have "GetValueFromNote_long desc (8 * (2 + 3 * of_nat i)) kInvalidValue = kInvalidValue \<or>
         GetValueFromNote_long desc (8 * (2 + 3 * of_nat i + 1)) kInvalidValue = kInvalidValue \<or>
         GetValueFromNote_long desc (8 * (2 + 3 * of_nat i + 2)) kInvalidValue = kInvalidValue"
      using triple_offset_cases [OF 2(2), of i] assms(3) unfolding 2(3) by metis
    then show ?thesis
      using 2(1) by (intro GetFileMappings_invalid_triple [OF assms(1)])
  qed
qed

text \<open>
  C4, as the spec states it, fails for the path bytes: a read of a path byte beyond the
  end of the description returns the default 0, which ends the name.  The note
  \<open>ex_unterminated_note\<close> ends inside its only file name; the byte at offset 42 is
  out of range, the name read from offset 40 is \<open>/a\<close>, and decoding succeeds.
\<close>

theorem GetFileMappings_path_byte_counterexample:
  "\<not> Covers (Note_GetDescription (LocateNote NT_FILE ex_unterminated_note)) 42 1 \<and>
   ReadFileName (Note_GetDescription (LocateNote NT_FILE ex_unterminated_note)) 40
     = (ascii ''/a'', 43) \<and>
   mapping_at (0x1000, 0x2000) (GetFileMappings ex_unterminated_note Map.empty)
     = Some \<lparr>offset = 0x3000, path = ascii ''/a''\<rparr>"
  by code_simp

lemma GetFileMappings_loop_valid:
  assumes "\<forall>i. i0 \<le> i \<and> int i < sint fc \<longrightarrow>
             GetValueFromNote_long desc (8 * (2 + 3 * of_nat i)) kInvalidValue \<noteq> kInvalidValue \<and>
             GetValueFromNote_long desc (8 * (2 + 3 * of_nat i + 1)) kInvalidValue \<noteq> kInvalidValue \<and>
             GetValueFromNote_long desc (8 * (2 + 3 * of_nat i + 2)) kInvalidValue \<noteq> kInvalidValue"
  shows "\<exists>fm'. GetFileMappings_loop desc fc ps i0 fpos fm = Inr fm'"
  using assms
proof (induction desc fc ps i0 fpos fm rule: GetFileMappings_loop.induct)
  case (1 desc fc ps i0 fpos fm)
  show ?case
  proof (cases "int i0 < sint fc")
    case False
    then show ?thesis by (subst GetFileMappings_loop.simps) simp
  next
    case True
    let ?a = "GetValueFromNote_long desc (8 * (2 + 3 * of_nat i0)) kInvalidValue"
    let ?b = "GetValueFromNote_long desc (8 * (2 + 3 * of_nat i0 + 1)) kInvalidValue"
    let ?c = "GetValueFromNote_long desc (8 * (2 + 3 * of_nat i0 + 2)) kInvalidValue"
    have ok: "?a \<noteq> kInvalidValue \<and> ?b \<noteq> kInvalidValue \<and> ?c \<noteq> kInvalidValue"
      using "1.prems" True by simp
    then have nok: "\<not> (?a = kInvalidValue \<or> ?b = kInvalidValue \<or> ?c = kInvalidValue)"
      by simp
    have rest: "\<forall>i. i0 + 1 \<le> i \<and> int i < sint fc \<longrightarrow>
             GetValueFromNote_long desc (8 * (2 + 3 * of_nat i)) kInvalidValue \<noteq> kInvalidValue \<and>
             GetValueFromNote_long desc (8 * (2 + 3 * of_nat i + 1)) kInvalidValue \<noteq> kInvalidValue \<and>
             GetValueFromNote_long desc (8 * (2 + 3 * of_nat i + 2)) kInvalidValue \<noteq> kInvalidValue"
      using "1.prems" by simp
    have "\<exists>fm'. GetFileMappings_loop desc fc ps (i0 + 1) (snd (ReadFileName desc fpos))
            (fm((?a, ?b) \<mapsto>
              \<lparr>offset = ?c * ps,
               path = path (case fm (?a, ?b) of
                                None \<Rightarrow> \<lparr>offset = 0, path = []\<rparr> | Some v \<Rightarrow> v)
                        @ fst (ReadFileName desc fpos)\<rparr>)) = Inr fm'"
      using "1.IH" [OF True refl refl refl nok refl refl rest] .
    moreover have "GetFileMappings_loop desc fc ps i0 fpos fm =
          GetFileMappings_loop desc fc ps (i0 + 1) (snd (ReadFileName desc fpos))
            (fm((?a, ?b) \<mapsto>
              \<lparr>offset = ?c * ps,
               path = path (case fm (?a, ?b) of
                                None \<Rightarrow> \<lparr>offset = 0, path = []\<rparr> | Some v \<Rightarrow> v)
                        @ fst (ReadFileName desc fpos)\<rparr>))"
      using True nok by (subst GetFileMappings_loop.simps) (simp add: Let_def)
    ultimately show ?thesis by simp
  qed
qed

lemma GetFileMappings_valid_words:
  assumes "desc = Note_GetDescription (LocateNote NT_FILE note_buf)"
    and "Note_IsValid (LocateNote NT_FILE note_buf)"
    and "\<forall>off :: u64.
           (off = 0 \<or> off = 8 \<or>
            (\<exists>i k. int i < sint (GetValueFromNote_long desc 0 kInvalidValue) \<and> k < 3 \<and>
                   off = 8 * (2 + 3 * of_nat i + of_nat k))) \<longrightarrow>
           GetValueFromNote_long desc off kInvalidValue \<noteq> kInvalidValue"
  shows "\<exists>fm'. GetFileMappings note_buf fm = Inr fm'"
proof -
  let ?fc = "GetValueFromNote_long desc 0 kInvalidValue"
  have h: "?fc \<noteq> kInvalidValue" "GetValueFromNote_long desc 8 kInvalidValue \<noteq> kInvalidValue"
    using assms(3) by simp_all
  have t: "GetValueFromNote_long desc (8 * (2 + 3 * of_nat i + of_nat k)) kInvalidValue
             \<noteq> kInvalidValue" if "int i < sint ?fc" "k < 3" for i k
    using assms(3) that by blast
  have "\<forall>i. 0 \<le> i \<and> int i < sint ?fc \<longrightarrow>
             GetValueFromNote_long desc (8 * (2 + 3 * of_nat i)) kInvalidValue \<noteq> kInvalidValue \<and>
             GetValueFromNote_long desc (8 * (2 + 3 * of_nat i + 1)) kInvalidValue \<noteq> kInvalidValue \<and>
             GetValueFromNote_long desc (8 * (2 + 3 * of_nat i + 2)) kInvalidValue \<noteq> kInvalidValue"
  proof (intro allI impI)
    fix i :: nat assume "0 \<le> i \<and> int i < sint ?fc"
    then have i: "int i < sint ?fc" by simp
    show "GetValueFromNote_long desc (8 * (2 + 3 * of_nat i)) kInvalidValue \<noteq> kInvalidValue \<and>
             GetValueFromNote_long desc (8 * (2 + 3 * of_nat i + 1)) kInvalidValue \<noteq> kInvalidValue \<and>
             GetValueFromNote_long desc (8 * (2 + 3 * of_nat i + 2)) kInvalidValue \<noteq> kInvalidValue"
      using t [OF i, of 0] t [OF i, of 1] t [OF i, of 2] by simp
  qed
  then have "\<exists>fm'. GetFileMappings_loop desc ?fc ps 0 fpos fm = Inr fm'" for ps fpos
    by (rule GetFileMappings_loop_valid)
  then show ?thesis
    using assms(1,2) h by (simp add: GetFileMappings_def Let_def)
qed

text \<open>
  C4, amended.  With \<open>desc\<close> the description of the NT_FILE note: when the file-count
  word (offset 0), the page-size word (offset 8) or a word \<open>k < 3\<close> of a triple
  \<open>i < file_count\<close> lies beyond the end of the description, \<open>GetFileMappings\<close> fails
  with \<open>ParseError\<close>.  A path byte beyond the end reads as the terminating NUL: the name
  ends there and \<open>filename_pos\<close> moves on by one.  It causes no failure: whenever the
  NT_FILE note is found and each of those words reads as a value other than -1,
  \<open>GetFileMappings\<close> succeeds, whatever the path bytes are and wherever they end.
\<close>

theorem GetFileMappings_out_of_range:
  fixes off filename_pos :: u64
  assumes "desc = Note_GetDescription (LocateNote NT_FILE note_buf)"
  shows "((off = 0 \<or> off = 8 \<or>
           (\<exists>i k. int i < sint (GetValueFromNote_long desc 0 kInvalidValue) \<and> k < 3 \<and>
                  off = 8 * (2 + 3 * of_nat i + of_nat k))) \<and>
          \<not> Covers desc (unat off) 8 \<longrightarrow>
          GetFileMappings note_buf file_mappings = Inl ParseError) \<and>
         (\<not> Covers desc (unat filename_pos) 1 \<longrightarrow>
          ReadFileName desc filename_pos = ([], filename_pos + 1)) \<and>
         (Note_IsValid (LocateNote NT_FILE note_buf) \<and>
          (\<forall>word_off :: u64.
             (word_off = 0 \<or> word_off = 8 \<or>
              (\<exists>i k. int i < sint (GetValueFromNote_long desc 0 kInvalidValue) \<and> k < 3 \<and>
                     word_off = 8 * (2 + 3 * of_nat i + of_nat k))) \<longrightarrow>
             GetValueFromNote_long desc word_off kInvalidValue \<noteq> kInvalidValue) \<longrightarrow>
          (\<exists>file_mappings'. GetFileMappings note_buf file_mappings = Inr file_mappings'))"
proof (intro conjI impI)
  assume a: "(off = 0 \<or> off = 8 \<or>
           (\<exists>i k. int i < sint (GetValueFromNote_long desc 0 kInvalidValue) \<and> k < 3 \<and>
                  off = 8 * (2 + 3 * of_nat i + of_nat k))) \<and>
          \<not> Covers desc (unat off) 8"
  then have "GetValueFromNote_long desc off kInvalidValue = kInvalidValue"
    by (simp add: GetValueFromNote_long_def)
  then show "GetFileMappings note_buf file_mappings = Inl ParseError"
    using a by (intro GetFileMappings_invalid_word [OF assms, of off]) blast+
next
  assume "\<not> Covers desc (unat filename_pos) 1"
  then show "ReadFileName desc filename_pos = ([], filename_pos + 1)"
    by (subst ReadFileName.simps) (simp add: GetValueFromNote_char_def)
next
  assume v: "Note_IsValid (LocateNote NT_FILE note_buf) \<and>
          (\<forall>word_off :: u64.
             (word_off = 0 \<or> word_off = 8 \<or>
              (\<exists>i k. int i < sint (GetValueFromNote_long desc 0 kInvalidValue) \<and> k < 3 \<and>
                     word_off = 8 * (2 + 3 * of_nat i + of_nat k))) \<longrightarrow>
             GetValueFromNote_long desc word_off kInvalidValue \<noteq> kInvalidValue)"
  show "\<exists>file_mappings'. GetFileMappings note_buf file_mappings = Inr file_mappings'"
    using assms v [THEN conjunct1] v [THEN conjunct2] by (rule GetFileMappings_valid_words)
qed

theorem GetFileMappings_out_of_range_witness:
  "\<not> Covers (Note_GetDescription (LocateNote NT_FILE ex_short_note)) (unat (8 :: u64)) 8 \<and>
   GetFileMappings ex_short_note Map.empty = Inl ParseError \<and>
   int 1 < sint (GetValueFromNote_long
                  (Note_GetDescription (LocateNote NT_FILE ex_one_triple_note)) 0 kInvalidValue) \<and>
   (0 :: nat) < 3 \<and>
   \<not> Covers (Note_GetDescription (LocateNote NT_FILE ex_one_triple_note)) (unat (40 :: u64)) 8 \<and>
   GetFileMappings ex_one_triple_note Map.empty = Inl ParseError \<and>
   Note_IsValid (LocateNote NT_FILE ex_unterminated_note) \<and>
   GetValueFromNote_long (Note_GetDescription (LocateNote NT_FILE ex_unterminated_note)) 0
     kInvalidValue = 1 \<and>
   GetValueFromNote_long (Note_GetDescription (LocateNote NT_FILE ex_unterminated_note)) 8
     kInvalidValue = 4096 \<and>
   GetValueFromNote_long (Note_GetDescription (LocateNote NT_FILE ex_unterminated_note)) 16
     kInvalidValue = 0x1000 \<and>
   GetValueFromNote_long (Note_GetDescription (LocateNote NT_FILE ex_unterminated_note)) 24
     kInvalidValue = 0x2000 \<and>
   GetValueFromNote_long (Note_GetDescription (LocateNote NT_FILE ex_unterminated_note)) 32
     kInvalidValue = 3 \<and>
   \<not> Covers (Note_GetDescription (LocateNote NT_FILE ex_unterminated_note)) (unat (42 :: u64)) 1 \<and>
   ReadFileName (Note_GetDescription (LocateNote NT_FILE ex_unterminated_note)) 42 = ([], 43) \<and>
   (\<exists>file_mappings'. GetFileMappings ex_unterminated_note Map.empty = Inr file_mappings')"
proof -
  let ?d1 = "Note_GetDescription (LocateNote NT_FILE ex_short_note)"
  let ?d2 = "Note_GetDescription (LocateNote NT_FILE ex_one_triple_note)"
  let ?d3 = "Note_GetDescription (LocateNote NT_FILE ex_unterminated_note)"
  have a1: "\<not> Covers ?d1 (unat (8 :: u64)) 8" by code_simp
  have a2: "int 1 < sint (GetValueFromNote_long ?d2 0 kInvalidValue)" by code_simp
  have a3: "\<not> Covers ?d2 (unat (40 :: u64)) 8" by code_simp
  have e: "\<exists>i k. int i < sint (GetValueFromNote_long ?d2 0 kInvalidValue) \<and> k < 3 \<and>
                 (40 :: u64) = 8 * (2 + 3 * of_nat i + of_nat k)"
    using a2 by (intro exI [of _ 1] exI [of _ 0]) simp
  have r1: "GetFileMappings ex_short_note Map.empty = Inl ParseError"
    using GetFileMappings_out_of_range [OF refl, of 8 ex_short_note Map.empty] a1 by blast
  have r2: "GetFileMappings ex_one_triple_note Map.empty = Inl ParseError"
    using GetFileMappings_out_of_range [OF refl, of 40 ex_one_triple_note Map.empty] a3 e
    by blast
  have b0: "Note_IsValid (LocateNote NT_FILE ex_unterminated_note)" by code_simp
  have v0: "GetValueFromNote_long ?d3 0 kInvalidValue = 1" by code_simp
  have v8: "GetValueFromNote_long ?d3 8 kInvalidValue = 4096" by code_simp
  have v16: "GetValueFromNote_long ?d3 16 kInvalidValue = 0x1000" by code_simp
  have v24: "GetValueFromNote_long ?d3 24 kInvalidValue = 0x2000" by code_simp
  have v32: "GetValueFromNote_long ?d3 32 kInvalidValue = 3" by code_simp
  have b4: "\<not> Covers ?d3 (unat (42 :: u64)) 1" by code_simp
  have words: "\<forall>word_off :: u64.
             (word_off = 0 \<or> word_off = 8 \<or>
              (\<exists>i k. int i < sint (GetValueFromNote_long ?d3 0 kInvalidValue) \<and> k < 3 \<and>
                     word_off = 8 * (2 + 3 * of_nat i + of_nat k))) \<longrightarrow>
             GetValueFromNote_long ?d3 word_off kInvalidValue \<noteq> kInvalidValue"
  proof (intro allI impI)
    fix word_off :: u64
    assume "word_off = 0 \<or> word_off = 8 \<or>
              (\<exists>i k. int i < sint (GetValueFromNote_long ?d3 0 kInvalidValue) \<and> k < 3 \<and>
                     word_off = 8 * (2 + 3 * of_nat i + of_nat k))"
    then consider "word_off = 0" | "word_off = 8"
      | i k where "int i < sint (1 :: u64)" "k < 3" "word_off = 8 * (2 + 3 * of_nat i + of_nat k)"
      unfolding v0 by blast
    then have "word_off = 0 \<or> word_off = 8 \<or> word_off = 16 \<or> word_off = 24 \<or> word_off = 32"
    proof cases
      case 3
      have "i = 0" using 3(1) by simp
      moreover have "k = 0 \<or> k = 1 \<or> k = 2" using 3(2) by linarith
      ultimately show ?thesis using 3(3) by auto
    qed simp_all
    then show "GetValueFromNote_long ?d3 word_off kInvalidValue \<noteq> kInvalidValue"
      using v0 v8 v16 v24 v32 by (auto simp: kInvalidValue_def)
  qed
  have r3: "ReadFileName ?d3 42 = ([], 42 + 1)"
    using GetFileMappings_out_of_range [OF refl, of _ ex_unterminated_note _ 42] b4 by blast
  have r4: "\<exists>file_mappings'. GetFileMappings ex_unterminated_note Map.empty = Inr file_mappings'"
    using GetFileMappings_out_of_range [OF refl, of _ ex_unterminated_note Map.empty] b0 words
    by blast
  show ?thesis using a1 a2 a3 r1 r2 b0 v0 v8 v16 v24 v32 b4 r3 r4 by simp
qed

text \<open>
  C9.  When the note buffer read from the core dump holds an NT_FILE note in which the
  stored file-count word, page-size word or a word \<open>k < 3\<close> of a triple
  \<open>i < file_count\<close> lies inside the description and is -1, \<open>GetFileMappings\<close> fails
  with \<open>ParseError\<close> and \<open>WriteCoredumpToFD\<close> returns -1 without touching the file
  system or the destination.
\<close>

theorem GetFileMappings_stored_minus_one:
  fixes off :: u64
  assumes "ReadUntilNote (memory_limit w) (FdReader_init (fd_src cw)) =
             Inr (elf_header, program_headers, note_buf, reader)"
    and "desc = Note_GetDescription (LocateNote NT_FILE note_buf)"
    and "off = 0 \<or> off = 8 \<or>
         (\<exists>i k. int i < sint (GetValueFromNote_long desc 0 kInvalidValue) \<and> k < 3 \<and>
                off = 8 * (2 + 3 * of_nat i + of_nat k))"
    and "Covers desc (unat off) 8" and "field64 desc (unat off) = - 1"
  shows "GetFileMappings note_buf file_mappings = Inl ParseError \<and>
         WriteCoredumpToFD cw w fd_dest = (Inl ParseError, w, fd_dest)"
proof -
  have v: "GetValueFromNote_long desc off kInvalidValue = kInvalidValue"
    using assms(4,5) by (simp add: GetValueFromNote_long_def kInvalidValue_def)
  have g: "GetFileMappings note_buf fm = Inl ParseError" for fm
    using assms(2,3) v by (rule GetFileMappings_invalid_word)
  show ?thesis
    using g [of file_mappings] g [of Map.empty] assms(1)
    by (simp add: WriteCoredumpToFD_def)
qed

theorem GetFileMappings_stored_minus_one_witness:
  "ReadUntilNote (memory_limit (ex_world_open 1000)) (FdReader_init (fd_src ex_minus_one_cw)) =
     Inr (ex_ehdr 1, [ex_note_phdr 120 64], ex_minus_one_note,
          \<lparr>fd = \<lparr>pending = [], ending = EndOfFile\<rparr>, bytes_read = 184\<rparr>) \<and>
   int 0 < sint (GetValueFromNote_long
                  (Note_GetDescription (LocateNote NT_FILE ex_minus_one_note)) 0 kInvalidValue) \<and>
   (1 :: nat) < 3 \<and>
   Covers (Note_GetDescription (LocateNote NT_FILE ex_minus_one_note)) (unat (24 :: u64)) 8 \<and>
   field64 (Note_GetDescription (LocateNote NT_FILE ex_minus_one_note)) (unat (24 :: u64)) = - 1 \<and>
   GetFileMappings ex_minus_one_note Map.empty = Inl ParseError \<and>
   WriteCoredumpToFD ex_minus_one_cw (ex_world_open 1000) ex_dest
     = (Inl ParseError, ex_world_open 1000, ex_dest)"
proof -
  let ?d = "Note_GetDescription (LocateNote NT_FILE ex_minus_one_note)"
  have h1: "ReadUntilNote (memory_limit (ex_world_open 1000))
              (FdReader_init (fd_src ex_minus_one_cw)) =
     Inr (ex_ehdr 1, [ex_note_phdr 120 64], ex_minus_one_note,
          \<lparr>fd = \<lparr>pending = [], ending = EndOfFile\<rparr>, bytes_read = 184\<rparr>)"
    by code_simp
  have h2: "Covers ?d (unat (24 :: u64)) 8 \<and> field64 ?d (unat (24 :: u64)) = - 1 \<and>
            int 0 < sint (GetValueFromNote_long ?d 0 kInvalidValue)"
    by code_simp
  have h3: "(24 :: u64) = 0 \<or> (24 :: u64) = 8 \<or>
         (\<exists>i k. int i < sint (GetValueFromNote_long ?d 0 kInvalidValue) \<and> k < 3 \<and>
                (24 :: u64) = 8 * (2 + 3 * of_nat i + of_nat k))"
    using h2 by (intro disjI2 exI [of _ 0] exI [of _ 1]) simp
  show ?thesis
    using GetFileMappings_stored_minus_one [OF h1 refl h3, of Map.empty ex_dest]
          h1 h2
    by simp
qed

section \<open>Properties of WriteMaps\<close>

lemma fmt_x_2_0: "fmt_x 2 0 = ascii ''00''"
  by code_simp

lemma maps_line_eq:
  "maps_line (p_vaddr ph, p_vaddr ph + p_memsz ph) (p_flags ph)
     (case fm (p_vaddr ph, p_vaddr ph + p_memsz ph) of Some info \<Rightarrow> offset info | None \<Rightarrow> 0)
     (case fm (p_vaddr ph, p_vaddr ph + p_memsz ph) of Some info \<Rightarrow> path info | None \<Rightarrow> [])
   = maps_entry_line fm ph"
  by (simp add: maps_line_def maps_entry_line_def Let_def fmt_x_2_0 ascii_def fmt_s_def
           split: option.splits)

lemma WriteFully_append:
  assumes "pos f = length (data f)" "length (data f) + length buf \<le> size_limit f"
  shows "WriteFully f buf = Some (f\<lparr>data := data f @ buf, pos := length (data f) + length buf\<rparr>)"
  using assms by (cases "buf = []") (simp_all add: WriteFully_def)

lemma snprintf_buf_short: "length line < kLineBufSize \<Longrightarrow> snprintf_buf line = line"
  by (simp add: snprintf_buf_def kLineBufSize_def)

lemma WriteMaps_loop_text:
  assumes "pos f = length (data f)"
    and "\<forall>ph \<in> set phs. p_type ph = PT_LOAD \<longrightarrow> length (maps_entry_line fm ph) < kLineBufSize"
    and "length (data f) + length (maps_text phs fm) \<le> size_limit f"
  shows "WriteMaps_loop phs fm f =
           (None, f\<lparr>data := data f @ maps_text phs fm,
                     pos := length (data f) + length (maps_text phs fm)\<rparr>)"
  using assms
proof (induction phs arbitrary: f)
  case Nil
  then show ?case by (simp add: maps_text_def)
next
  case (Cons ph phs)
  show ?case
  proof (cases "p_type ph = PT_LOAD")
    case False
    have t: "maps_text (ph # phs) fm = maps_text phs fm"
      using False by (simp add: maps_text_def)
    show ?thesis
      using Cons.IH [of f] Cons.prems False unfolding t by simp
  next
    case True
    define line where "line = maps_entry_line fm ph"
    define f1 where "f1 = f\<lparr>data := data f @ line, pos := length (data f) + length line\<rparr>"
    have t: "maps_text (ph # phs) fm = line @ maps_text phs fm"
      using True by (simp add: maps_text_def line_def)
    have short: "length line < kLineBufSize"
      using Cons.prems(2) True by (simp add: line_def)
    have fits: "length (data f) + length line \<le> size_limit f"
      using Cons.prems(3) unfolding t by simp
    have w: "WriteFully f (snprintf_buf line) = Some f1"
      unfolding snprintf_buf_short [OF short] f1_def
      using Cons.prems(1) fits by (rule WriteFully_append)
    have step: "WriteMaps_loop (ph # phs) fm f = WriteMaps_loop phs fm f1"
      using True short w by (simp add: Let_def maps_line_eq line_def [symmetric])
    have ih: "WriteMaps_loop phs fm f1 =
           (None, f1\<lparr>data := data f1 @ maps_text phs fm,
                      pos := length (data f1) + length (maps_text phs fm)\<rparr>)"
    proof (rule Cons.IH)
      show "pos f1 = length (data f1)" by (simp add: f1_def)
      show "\<forall>ph \<in> set phs. p_type ph = PT_LOAD \<longrightarrow> length (maps_entry_line fm ph) < kLineBufSize"
        using Cons.prems(2) by simp
      show "length (data f1) + length (maps_text phs fm) \<le> size_limit f1"
        using Cons.prems(3) unfolding t by (simp add: f1_def)
    qed
    show ?thesis
      unfolding step ih t by (simp add: f1_def)
  qed
qed

text \<open>
  C7, as the spec states it, fails in one direction: the offset field is also 0 when
  the range is in the index with byte offset 0, as for a mapping of the start of a
  file.  For the header \<open>ex_load\<close> and an index that maps its range to offset 0 and
  path \<open>/a\<close>, the line written has the offset field \<open>00000000\<close> and the path \<open>/a\<close>.
\<close>

theorem WriteMaps_offset_zero_counterexample:
  "ex_file_mappings_zero (0x1000, 0x2000) \<noteq> None \<and>
   file_at ''/data/proc/maps''
     (snd (WriteMaps (ex_world 1000) [ex_load] ex_file_mappings_zero ''/data/proc/maps''))
   = Some (ascii ''00001000-00002000 r-xp 00000000 00:00 0 /a'' @ [10])"
  by code_simp

text \<open>
  C7, amended.  When the maps file does not exist yet and can be created, every line is
  shorter than the 1024-byte line buffer and the text fits the file, \<open>WriteMaps\<close> succeeds and the file
  holds \<open>maps_text\<close>: one line per LOAD header of the original list, in the original
  order, in the format of \<open>maps_entry_line\<close>, whose offset field is 0 when the range is
  not in the index and the byte offset found (which may be 0) when it is, and whose
  path is empty when the range is not in the index and the path found when it is.
\<close>

theorem WriteMaps_text:
  assumes "files w output_path = None" and "creatable w output_path"
    and "\<forall>ph \<in> set program_headers.
           p_type ph = PT_LOAD \<longrightarrow> length (maps_entry_line file_mappings ph) < kLineBufSize"
    and "length (maps_text program_headers file_mappings) \<le> max_file_size w"
  shows "WriteMaps w program_headers file_mappings output_path =
           (None, w\<lparr>files := (files w)(output_path \<mapsto> maps_text program_headers file_mappings),
                     events := events w @ [Created output_path]\<rparr>)"
proof -
  define f where "f = \<lparr>data = [], pos = 0, size_limit = max_file_size w,
                         max_offset = max_file_offset w\<rparr>"
  have "WriteMaps_loop program_headers file_mappings f =
           (None, f\<lparr>data := data f @ maps_text program_headers file_mappings,
                     pos := length (data f) + length (maps_text program_headers file_mappings)\<rparr>)"
    using assms(3,4) by (intro WriteMaps_loop_text) (simp_all add: f_def)
  then show ?thesis
    using assms(1,2) by (simp add: WriteMaps_def open_excl_def close_file_def f_def)
qed

theorem WriteMaps_text_witness:
  "files (ex_world 1000) ''/data/proc/maps'' = None \<and>
   creatable (ex_world 1000) ''/data/proc/maps'' \<and>
   length (maps_entry_line ex_file_mappings (ex_phdrs ! 1)) < kLineBufSize \<and>
   length (maps_entry_line ex_file_mappings (ex_phdrs ! 2)) < kLineBufSize \<and>
   length (maps_text ex_phdrs ex_file_mappings) \<le> max_file_size (ex_world 1000) \<and>
   file_at ''/data/proc/maps''
     (snd (WriteMaps (ex_world 1000) ex_phdrs ex_file_mappings ''/data/proc/maps''))
   = Some (ascii ''00001000-00002000 r-xp 00003000 00:00 0 /a'' @ [10] @
           ascii ''00007000-00008000 rw-p 00000000 00:00 0 '' @ [10])"
proof -
  have h1: "files (ex_world 1000) ''/data/proc/maps'' = None"
    by (simp add: ex_world_def)
  have h1': "creatable (ex_world 1000) ''/data/proc/maps''"
    by (simp add: ex_world_def)
  have h2: "\<forall>ph \<in> set ex_phdrs.
              p_type ph = PT_LOAD \<longrightarrow> length (maps_entry_line ex_file_mappings ph) < kLineBufSize"
    by code_simp
  have h3: "length (maps_text ex_phdrs ex_file_mappings) \<le> max_file_size (ex_world 1000)"
    by code_simp
  have l: "length (maps_entry_line ex_file_mappings (ex_phdrs ! 1)) < kLineBufSize \<and>
           length (maps_entry_line ex_file_mappings (ex_phdrs ! 2)) < kLineBufSize"
    by code_simp
  have t: "maps_text ex_phdrs ex_file_mappings =
    ascii ''00001000-00002000 r-xp 00003000 00:00 0 /a'' @ [10] @
    ascii ''00007000-00008000 rw-p 00000000 00:00 0 '' @ [10]"
    by code_simp
  show ?thesis
    using WriteMaps_text [OF h1 h1' h2 h3] h1 h1' h3 l
    by (simp add: file_at_def t)
qed

section \<open>Properties of WriteCoredump\<close>

lemma ReadAndFilter_Inr:
  assumes "ReadAndFilter alloc_limit cw = Inr (elf_header, program_headers, filtered)"
  shows "\<exists>note_buf reader file_mappings.
           ReadUntilNote alloc_limit (FdReader_init (fd_src cw)) =
             Inr (elf_header, program_headers, note_buf, reader) \<and>
           GetFileMappings note_buf Map.empty = Inr file_mappings \<and>
           FilterSegments program_headers file_mappings = Some filtered"
  using assms
  by (auto simp: ReadAndFilter_def split: sum.splits prod.splits option.splits)

lemma WriteCoredump_over_limit:
  assumes "files w (coredump_filename cw) = None"
    and "creatable w (coredump_filename cw)"
    and "ReadAndFilter (memory_limit w) cw = Inr (elf_header, program_headers, filtered)"
    and "statvfs_result w (coredump_filename cw) = Some (f_bavail, f_frsize)"
    and "0 \<le> sint (f_bavail * f_frsize)"
    and "min ((f_bavail * f_frsize) div 20) kMaxCoredumpSize
           < p_offset (last filtered) + p_filesz (last filtered)"
  shows "WriteCoredump cw w =
           (Inl SizeLimitExceeded,
            w\<lparr>events := events w @ [Created (coredump_filename cw),
                                     Unlinked (coredump_filename cw)]\<rparr>)"
proof -
  obtain note_buf reader file_mappings where
    p: "ReadUntilNote (memory_limit w) (FdReader_init (fd_src cw)) =
             Inr (elf_header, program_headers, note_buf, reader)"
       "GetFileMappings note_buf Map.empty = Inr file_mappings"
       "FilterSegments program_headers file_mappings = Some filtered"
    using ReadAndFilter_Inr [OF assms(3)] by blast
  define name where "name = coredump_filename cw"
  define w1 where "w1 = w\<lparr>files := (files w)(name \<mapsto> []), events := events w @ [Created name]\<rparr>"
  define f where "f = \<lparr>data = [], pos = 0, size_limit = max_file_size w,
                         max_offset = max_file_offset w\<rparr>"
  have o: "open_excl w (coredump_filename cw) = Some (w1, f)"
    using assms(1,2) by (simp add: open_excl_def w1_def f_def name_def)
  have g: "GetFreeDiskSpace w1 (coredump_filename cw) = f_bavail * f_frsize"
    using assms(4) by (simp add: GetFreeDiskSpace_def w1_def name_def)
  have m: "memory_limit w1 = memory_limit w" by (simp add: w1_def)
  have r: "WriteCoredumpToFD cw w1 f = (Inl SizeLimitExceeded, w1, f)"
    using p assms(5,6) by (simp add: WriteCoredumpToFD_def g Let_def m)
  have fu: "(files w)(name := None) = files w"
    using assms(1) by (auto simp: name_def)
  have u: "unlink (close_file w1 name f) name =
           w\<lparr>events := events w @ [Created name, Unlinked name]\<rparr>"
    by (simp add: unlink_def close_file_def w1_def f_def fu)
  show ?thesis
    unfolding WriteCoredump_def o using r u by (simp add: name_def)
qed

lemma ex_stack_ReadAndFilter:
  "ReadAndFilter (memory_limit (ex_world 1)) ex_stack_cw =
     Inr (ex_ehdr 2, [ex_note_phdr 176 100, ex_load_phdr 0x7000 288 8],
          [ex_note_phdr 176 100, ex_load_phdr 0x7000 288 8])"
  by code_simp

lemma ex_stack_over_limit:
  "files (ex_world 1) (coredump_filename ex_stack_cw) = None \<and>
   creatable (ex_world 1) (coredump_filename ex_stack_cw) \<and>
   statvfs_result (ex_world 1) (coredump_filename ex_stack_cw) = Some (1, 4096) \<and>
   0 \<le> sint (1 * 4096 :: u64) \<and>
   min ((1 * 4096) div 20) kMaxCoredumpSize
     < p_offset (last [ex_note_phdr 176 100, ex_load_phdr 0x7000 288 8])
       + p_filesz (last [ex_note_phdr 176 100, ex_load_phdr 0x7000 288 8]) \<and>
   coredump_filename ex_stack_cw = ''/data/core''"
  by (simp add: ex_world_def ex_stack_cw_def ex_cw_def ex_load_phdr_def kMaxCoredumpSize_def)

text \<open>
  C2, as the spec states it, fails on the order of events: \<open>WriteCoredump\<close> creates the
  destination before \<open>WriteCoredumpToFD\<close> computes the limit, and unlinks it after the
  failure.  On \<open>ex_stack_cw\<close> with 4096 free bytes (limit 204, expected size 296) the
  run fails, the log shows the file created and then removed, and no file is left.
\<close>

theorem WriteCoredump_size_limit_counterexample:
  "outcome (WriteCoredump ex_stack_cw (ex_world 1)) ''/data/core''
     = (Inl SizeLimitExceeded, [Created ''/data/core'', Unlinked ''/data/core''], None)"
proof -
  note h = ex_stack_over_limit
  have h1: "files (ex_world 1) (coredump_filename ex_stack_cw) = None" using h by blast
  have h2: "creatable (ex_world 1) (coredump_filename ex_stack_cw)" using h by blast
  have h3: "statvfs_result (ex_world 1) (coredump_filename ex_stack_cw) = Some (1, 4096)"
    using h by blast
  have h4: "0 \<le> sint (1 * 4096 :: u64)" using h by blast
  have h5: "min ((1 * 4096) div 20) kMaxCoredumpSize
     < p_offset (last [ex_note_phdr 176 100, ex_load_phdr 0x7000 288 8])
       + p_filesz (last [ex_note_phdr 176 100, ex_load_phdr 0x7000 288 8])"
    using h by blast
  have n: "coredump_filename ex_stack_cw = ''/data/core''" using h by blast
  have e: "events (ex_world 1) = []" "files (ex_world 1) ''/data/core'' = None"
    by (simp_all add: ex_world_def)
  show ?thesis
    using WriteCoredump_over_limit [OF h1 h2 ex_stack_ReadAndFilter h3 h4 h5]
    by (simp add: outcome_def n e)
qed

text \<open>
  C2, amended.  When the destination does not exist and can be created, the core dump
  parses and filters, \<open>statvfs\<close> reports a non-negative free space and the limit
  (the minimum of free space divided by 20 and 256 MiB) is smaller than the expected
  size (offset plus file size of the last filtered entry), \<open>WriteCoredump\<close> fails
  with \<open>SizeLimitExceeded\<close>.  The
  destination has been created exclusively before the check and is unlinked on the
  failure: the files are those from before the call, no proc file is created, and the
  log gains the creation and the removal of the destination.
\<close>

theorem WriteCoredump_size_limit:
  assumes "files w (coredump_filename cw) = None"
    and "creatable w (coredump_filename cw)"
    and "ReadAndFilter (memory_limit w) cw = Inr (elf_header, program_headers, filtered)"
    and "statvfs_result w (coredump_filename cw) = Some (f_bavail, f_frsize)"
    and "0 \<le> sint (f_bavail * f_frsize)"
    and "min ((f_bavail * f_frsize) div 20) kMaxCoredumpSize
           < p_offset (last filtered) + p_filesz (last filtered)"
  shows "WriteCoredump cw w =
           (Inl SizeLimitExceeded,
            w\<lparr>events := events w @ [Created (coredump_filename cw),
                                     Unlinked (coredump_filename cw)]\<rparr>)"
  using assms by (rule WriteCoredump_over_limit)

theorem WriteCoredump_size_limit_witness:
  "files (ex_world 1) (coredump_filename ex_stack_cw) = None \<and>
   creatable (ex_world 1) (coredump_filename ex_stack_cw) \<and>
   ReadAndFilter (memory_limit (ex_world 1)) ex_stack_cw =
     Inr (ex_ehdr 2, [ex_note_phdr 176 100, ex_load_phdr 0x7000 288 8],
          [ex_note_phdr 176 100, ex_load_phdr 0x7000 288 8]) \<and>
   statvfs_result (ex_world 1) (coredump_filename ex_stack_cw) = Some (1, 4096) \<and>
   0 \<le> sint (1 * 4096 :: u64) \<and>
   min ((1 * 4096) div 20) kMaxCoredumpSize
     < p_offset (last [ex_note_phdr 176 100, ex_load_phdr 0x7000 288 8])
       + p_filesz (last [ex_note_phdr 176 100, ex_load_phdr 0x7000 288 8]) \<and>
   WriteCoredump ex_stack_cw (ex_world 1) =
     (Inl SizeLimitExceeded,
      (ex_world 1)\<lparr>events := [Created ''/data/core'', Unlinked ''/data/core'']\<rparr>)"
proof -
  note h = ex_stack_over_limit
  have h1: "files (ex_world 1) (coredump_filename ex_stack_cw) = None" using h by blast
  have h2: "creatable (ex_world 1) (coredump_filename ex_stack_cw)" using h by blast
  have h3: "statvfs_result (ex_world 1) (coredump_filename ex_stack_cw) = Some (1, 4096)"
    using h by blast
  have h4: "0 \<le> sint (1 * 4096 :: u64)" using h by blast
  have h5: "min ((1 * 4096) div 20) kMaxCoredumpSize
     < p_offset (last [ex_note_phdr 176 100, ex_load_phdr 0x7000 288 8])
       + p_filesz (last [ex_note_phdr 176 100, ex_load_phdr 0x7000 288 8])"
    using h by blast
  have n: "coredump_filename ex_stack_cw = ''/data/core''" using h by blast
  have e: "events (ex_world 1) = []" by (simp add: ex_world_def)
  show ?thesis
    using WriteCoredump_size_limit [OF h1 h2 ex_stack_ReadAndFilter h3 h4 h5]
          h1 h2 ex_stack_ReadAndFilter h3 h4 h5
    by (simp add: n e)
qed

lemma Read_Some:
  assumes "Read r n = (Some buf, r')"
  shows "bytes_read r' = bytes_read r + n" "length buf = unat n"
  using assms by (auto simp: Read_def ReadFully_def split: if_splits)

lemma FdReader_Seek_None:
  assumes "FdReader_Seek r off = (None, r')"
  shows "bytes_read r \<le> off" "bytes_read r' = off"
  using assms
  by (auto simp: FdReader_Seek_def CopyTo_None split: if_splits prod.splits)

lemma ReadUntilNote_Inr:
  assumes "ReadUntilNote alloc_limit r0 = Inr (elf_header, program_headers, note_buf, reader)"
  shows "\<exists>r1 r2 table r3 r4.
           Read r0 sizeof_Ehdr = (Some elf_header, r1) \<and>
           ucast (e_phentsize elf_header) = sizeof_Phdr \<and>
           FdReader_Seek r1 (e_phoff elf_header) = (None, r2) \<and>
           Read r2 (sizeof_Phdr * ucast (e_phnum elf_header)) = (Some table, r3) \<and>
           program_headers = decode_Phdrs (unat (e_phnum elf_header)) table \<and>
           program_headers \<noteq> [] \<and>
           FdReader_Seek r3 (p_offset (program_headers ! 0)) = (None, r4) \<and>
           Read r4 (p_filesz (program_headers ! 0)) = (Some note_buf, reader)"
proof -
  obtain elf r1 where a1: "Read r0 sizeof_Ehdr = (Some elf, r1)"
    using assms by (cases "Read r0 sizeof_Ehdr") (auto simp: ReadUntilNote_def split: option.splits)
  have a2: "ucast (e_phentsize elf) = sizeof_Phdr"
    using assms a1 by (auto simp: ReadUntilNote_def split: if_splits)
  have rest: "(case FdReader_Seek r1 (e_phoff elf) of
                  (Some e, r2) \<Rightarrow> Inl e
                | (None, r2) \<Rightarrow>
                    (case Read r2 (sizeof_Phdr * ucast (e_phnum elf)) of
                       (None, r3) \<Rightarrow> Inl (read_error r3)
                     | (Some table, r3) \<Rightarrow>
                         (let program_headers = decode_Phdrs (unat (e_phnum elf)) table
                          in if length program_headers < 1 \<or>
                                p_type (program_headers ! 0) \<noteq> PT_NOTE
                             then Inl ParseError
                             else (let note_program_header = program_headers ! 0
                                   in if \<not> resize_ok alloc_limit
                                             (unat (p_filesz note_program_header))
                                      then Inl Aborted
                                      else
                                      case FdReader_Seek r3 (p_offset note_program_header) of
                                        (Some e, r4) \<Rightarrow> Inl e
                                      | (None, r4) \<Rightarrow>
                                          (case Read r4 (p_filesz note_program_header) of
                                             (None, r5) \<Rightarrow> Inl (read_error r5)
                                           | (Some note_buf, r5) \<Rightarrow>
                                               Inr (elf, program_headers, note_buf, r5))))))
              = Inr (elf_header, program_headers, note_buf, reader)"
    using assms a1 by (auto simp: ReadUntilNote_def split: if_splits)
  obtain r2 where a3: "FdReader_Seek r1 (e_phoff elf) = (None, r2)"
    using rest by (cases "FdReader_Seek r1 (e_phoff elf)") (auto split: option.splits)
  obtain table r3 where a4: "Read r2 (sizeof_Phdr * ucast (e_phnum elf)) = (Some table, r3)"
    using rest a3 by (cases "Read r2 (sizeof_Phdr * ucast (e_phnum elf))") (auto split: option.splits)
  let ?phs = "decode_Phdrs (unat (e_phnum elf)) table"
  have a5: "?phs \<noteq> []"
    using rest a3 a4 by (auto simp: Let_def split: if_splits)
  have rest3: "(case FdReader_Seek r3 (p_offset (?phs ! 0)) of
                        (Some e, r4) \<Rightarrow> Inl e
                      | (None, r4) \<Rightarrow>
                          (case Read r4 (p_filesz (?phs ! 0)) of
                             (None, r5) \<Rightarrow> Inl (read_error r5)
                           | (Some note_buf, r5) \<Rightarrow> Inr (elf, ?phs, note_buf, r5)))
              = Inr (elf_header, program_headers, note_buf, reader)"
    using rest a3 a4 by (auto simp: Let_def split: if_splits)
  obtain r4 where a6: "FdReader_Seek r3 (p_offset (?phs ! 0)) = (None, r4)"
    using rest3 by (cases "FdReader_Seek r3 (p_offset (?phs ! 0))") (auto split: option.splits)
  obtain nb r5 where a7: "Read r4 (p_filesz (?phs ! 0)) = (Some nb, r5)"
    using rest3 a6 by (cases "Read r4 (p_filesz (?phs ! 0))") (auto split: option.splits)
  have eqs: "elf = elf_header" "?phs = program_headers" "nb = note_buf" "r5 = reader"
    using rest3 a6 a7 by auto
  have e2: "program_headers = decode_Phdrs (unat (e_phnum elf_header)) table"
    using eqs(1,2) by simp
  have "Read r0 sizeof_Ehdr = (Some elf_header, r1) \<and>
           ucast (e_phentsize elf_header) = sizeof_Phdr \<and>
           FdReader_Seek r1 (e_phoff elf_header) = (None, r2) \<and>
           Read r2 (sizeof_Phdr * ucast (e_phnum elf_header)) = (Some table, r3) \<and>
           program_headers = decode_Phdrs (unat (e_phnum elf_header)) table \<and>
           program_headers \<noteq> [] \<and>
           FdReader_Seek r3 (p_offset (program_headers ! 0)) = (None, r4) \<and>
           Read r4 (p_filesz (program_headers ! 0)) = (Some note_buf, reader)"
    using a1 a2 a3 a4 a5 a6 a7 e2 unfolding eqs(1) eqs(3) eqs(4) e2 [symmetric] by simp
  then show ?thesis by (intro exI)
qed

lemma ReadUntilNote_bytes_read:
  assumes "ReadUntilNote alloc_limit r0 = Inr (elf_header, program_headers, note_buf, reader)"
  shows "bytes_read reader = p_offset (program_headers ! 0) + p_filesz (program_headers ! 0)"
proof -
  obtain r3 r4 where
    "FdReader_Seek r3 (p_offset (program_headers ! 0)) = (None, r4)"
    "Read r4 (p_filesz (program_headers ! 0)) = (Some note_buf, reader)"
    using ReadUntilNote_Inr [OF assms] by blast
  then show ?thesis
    using FdReader_Seek_None(2) Read_Some(1) by metis
qed

section \<open>Properties of WriteCoredumpToFD\<close>



lemma consumed_before_Suc:
  "1 \<le> i \<Longrightarrow> consumed_before phs fl (i + 1) =
     (if 0 < p_filesz (fl ! i) then p_offset (phs ! i) + p_filesz (fl ! i)
      else consumed_before phs fl i)"
  by (cases i) auto

lemma CopySegments_loop_forward:
  assumes "CopySegments_loop i phs fl r f = (None, r', f')" "1 \<le> i"
    and "bytes_read r = consumed_before phs fl i"
  shows "\<forall>j. i \<le> j \<and> j < length fl \<and> 0 < p_filesz (fl ! j) \<longrightarrow>
             consumed_before phs fl j \<le> p_offset (phs ! j)"
  using assms
proof (induction i phs fl r f rule: CopySegments_loop.induct)
  case (1 i phs fl r f)
  show ?case
  proof (cases "i < length fl")
    case False
    then show ?thesis by auto
  next
    case True
    note lt = True
    show ?thesis
    proof (cases "0 < p_filesz (fl ! i)")
      case False
      have unf: "CopySegments_loop i phs fl r f = CopySegments_loop (i + 1) phs fl r f"
        using lt False by (subst CopySegments_loop.simps) simp
      have cb: "consumed_before phs fl (i + 1) = consumed_before phs fl i"
        using consumed_before_Suc [OF "1.prems"(2), of phs fl] False by (simp only: if_False)
      have ih: "\<forall>j. i + 1 \<le> j \<and> j < length fl \<and> 0 < p_filesz (fl ! j) \<longrightarrow>
             consumed_before phs fl j \<le> p_offset (phs ! j)"
        using "1.IH"(2) [OF lt False] "1.prems" unfolding unf cb by simp
      show ?thesis
      proof (intro allI impI)
        fix j assume j: "i \<le> j \<and> j < length fl \<and> 0 < p_filesz (fl ! j)"
        then have "j \<noteq> i" using False by auto
        then have "i + 1 \<le> j" using j by simp
        then show "consumed_before phs fl j \<le> p_offset (phs ! j)" using ih j by blast
      qed
    next
      case True
      note ret = True
      obtain r1 where s1: "FdReader_Seek r (p_offset (phs ! i)) = (None, r1)"
        using "1.prems"(1) lt ret
        by (subst (asm) CopySegments_loop.simps)
           (cases "FdReader_Seek r (p_offset (phs ! i))", auto split: option.splits)
      obtain f1 where s2: "Seek f (p_offset (fl ! i)) = (True, f1)"
        using "1.prems"(1) lt ret s1
        by (subst (asm) CopySegments_loop.simps)
           (cases "Seek f (p_offset (fl ! i))", auto split: bool.splits)
      obtain r2 f2 where s3: "CopyTo r1 (Some f1) (p_filesz (fl ! i)) = (None, r2, f2)"
        using "1.prems"(1) lt ret s1 s2
        by (subst (asm) CopySegments_loop.simps)
           (cases "CopyTo r1 (Some f1) (p_filesz (fl ! i))", auto split: option.splits)
      have rec: "CopySegments_loop (i + 1) phs fl r2 (case f2 of Some f \<Rightarrow> f | None \<Rightarrow> f1)
                 = (None, r', f')"
        using "1.prems"(1) lt ret s1 s2 s3
        by (subst (asm) CopySegments_loop.simps) simp
      have here: "consumed_before phs fl i \<le> p_offset (phs ! i)"
        using FdReader_Seek_None(1) [OF s1] "1.prems"(3) by simp
      have b1: "bytes_read r1 = p_offset (phs ! i)" using FdReader_Seek_None(2) [OF s1] .
      have b2: "bytes_read r2 = p_offset (phs ! i) + p_filesz (fl ! i)"
        using CopyTo_Some [OF s3 refl] b1 by simp
      have cb: "consumed_before phs fl (i + 1) = p_offset (phs ! i) + p_filesz (fl ! i)"
        using consumed_before_Suc [OF "1.prems"(2), of phs fl] ret by (simp only: if_True)
      have ih: "\<forall>j. i + 1 \<le> j \<and> j < length fl \<and> 0 < p_filesz (fl ! j) \<longrightarrow>
             consumed_before phs fl j \<le> p_offset (phs ! j)"
        using "1.IH"(1) [OF lt ret s1 [symmetric] refl s2 [symmetric] refl s3 [symmetric] refl refl rec]
              b2 cb by simp
      show ?thesis
      proof (intro allI impI)
        fix j assume j: "i \<le> j \<and> j < length fl \<and> 0 < p_filesz (fl ! j)"
        show "consumed_before phs fl j \<le> p_offset (phs ! j)"
        proof (cases "j = i")
          case True
          then show ?thesis using here by simp
        next
          case False
          then have "i + 1 \<le> j" using j by simp
          then show ?thesis using ih j by blast
        qed
      qed
    qed
  qed
qed

lemma WriteOutput_None:
  assumes "WriteOutput cw w fd_dest elf_header phs fl note_buf fm reader = (None, w', f')"
  shows "\<exists>f4 r'. CopySegments_loop 1 phs fl reader f4 = (None, r', f')"
  using assms
  by (auto simp: WriteOutput_def split: prod.splits option.splits bool.splits)

lemma WriteCoredumpToFD_Inr:
  assumes "ReadUntilNote (memory_limit w) (FdReader_init (fd_src cw)) = Inr (elf_header, phs, note_buf, reader)"
    and "GetFileMappings note_buf Map.empty = Inr fm"
    and "FilterSegments phs fm = Some fl"
    and "WriteCoredumpToFD cw w fd_dest = (Inr n, w', f')"
  shows "n = p_offset (last fl) + p_filesz (last fl) \<and>
         0 \<le> sint (GetFreeDiskSpace w (coredump_filename cw)) \<and>
         \<not> min (GetFreeDiskSpace w (coredump_filename cw) div 20) kMaxCoredumpSize < n \<and>
         WriteOutput cw w fd_dest elf_header phs fl note_buf fm reader = (None, w', f')"
  using assms(4) unfolding WriteCoredumpToFD_def
  by (auto simp: assms(1,2,3) Let_def split: if_splits prod.splits option.splits)

lemma WriteCoredumpToFD_result:
  "(\<exists>n w' f. WriteCoredumpToFD cw w fd_dest = (Inr n, w', f)) \<or>
   (\<exists>e w' f. WriteCoredumpToFD cw w fd_dest = (Inl e, w', f))"
proof -
  obtain res w' f where "WriteCoredumpToFD cw w fd_dest = (res, w', f)"
    by (cases "WriteCoredumpToFD cw w fd_dest") auto
  then show ?thesis by (cases res) auto
qed

lemma ex_backward_ReadAndFilter:
  "ReadAndFilter (memory_limit (ex_world_open 1000)) ex_backward_cw =
     Inr (ex_ehdr 2, [ex_note_phdr 176 100, ex_load_phdr 0x7000 200 8],
          [ex_note_phdr 176 100, ex_load_phdr 0x7000 288 8])"
  by code_simp


lemma ex_stack_run:
  "fd_outcome (WriteCoredumpToFD ex_stack_cw (ex_world_open 1000) ex_dest) = (Inr 296, 296)"
  by code_simp

lemma ex_backward_fails:
  "fst (WriteCoredumpToFD ex_backward_cw (ex_world_open 1000) ex_dest) = Inl InvalidSeek"
  by code_simp

text \<open>
  C10.  Let the core dump parse and filter, and call a segment retained when its index
  is at least 1 and its filtered file size is not 0.  \<open>consumed_before\<close> gives the
  input bytes consumed when the copy loop reaches an index: the end of the NOTE segment,
  then the end of the original bytes of the last retained segment before it (the
  64-bit counter \<open>bytes_read_\<close> of the reader).  When \<open>WriteCoredumpToFD\<close> succeeds,
  the original offset of every retained segment is at least the bytes consumed before
  it; and when some retained segment has an original offset below the bytes consumed
  before it, \<open>WriteCoredumpToFD\<close> fails, whatever the file system and the destination.
\<close>

theorem WriteCoredumpToFD_forward_order:
  assumes "ReadAndFilter (memory_limit w) cw = Inr (elf_header, program_headers, filtered)"
  shows "((\<exists>n w' f. WriteCoredumpToFD cw w fd_dest = (Inr n, w', f)) \<longrightarrow>
            (\<forall>i. 1 \<le> i \<and> i < length filtered \<and> 0 < p_filesz (filtered ! i) \<longrightarrow>
                 consumed_before program_headers filtered i \<le> p_offset (program_headers ! i))) \<and>
         ((\<exists>i. 1 \<le> i \<and> i < length filtered \<and> 0 < p_filesz (filtered ! i) \<and>
               p_offset (program_headers ! i) < consumed_before program_headers filtered i) \<longrightarrow>
            (\<exists>e w' f. WriteCoredumpToFD cw w fd_dest = (Inl e, w', f)))"
proof -
  obtain note_buf reader file_mappings where
    p: "ReadUntilNote (memory_limit w) (FdReader_init (fd_src cw)) =
             Inr (elf_header, program_headers, note_buf, reader)"
       "GetFileMappings note_buf Map.empty = Inr file_mappings"
       "FilterSegments program_headers file_mappings = Some filtered"
    using ReadAndFilter_Inr [OF assms] by blast
  have succ: "\<forall>i. 1 \<le> i \<and> i < length filtered \<and> 0 < p_filesz (filtered ! i) \<longrightarrow>
                 consumed_before program_headers filtered i \<le> p_offset (program_headers ! i)"
    if "WriteCoredumpToFD cw w fd_dest = (Inr n, w', f)" for n w' f
  proof -
    have "WriteOutput cw w fd_dest elf_header program_headers filtered note_buf file_mappings reader
            = (None, w', f)"
      using WriteCoredumpToFD_Inr [OF p that] by blast
    then obtain f4 r' where c: "CopySegments_loop 1 program_headers filtered reader f4 = (None, r', f)"
      using WriteOutput_None by blast
    have b: "bytes_read reader = consumed_before program_headers filtered 1"
      using ReadUntilNote_bytes_read [OF p(1)] by simp
    show ?thesis
      using CopySegments_loop_forward [OF c _ b] by simp
  qed
  show ?thesis
  proof (intro conjI impI)
    assume "\<exists>n w' f. WriteCoredumpToFD cw w fd_dest = (Inr n, w', f)"
    then show "\<forall>i. 1 \<le> i \<and> i < length filtered \<and> 0 < p_filesz (filtered ! i) \<longrightarrow>
                 consumed_before program_headers filtered i \<le> p_offset (program_headers ! i)"
      using succ by blast
  next
    assume bad: "\<exists>i. 1 \<le> i \<and> i < length filtered \<and> 0 < p_filesz (filtered ! i) \<and>
               p_offset (program_headers ! i) < consumed_before program_headers filtered i"
    have "\<not> (\<exists>n w' f. WriteCoredumpToFD cw w fd_dest = (Inr n, w', f))"
    proof
      assume "\<exists>n w' f. WriteCoredumpToFD cw w fd_dest = (Inr n, w', f)"
      then obtain n w' f where run: "WriteCoredumpToFD cw w fd_dest = (Inr n, w', f)" by blast
      obtain i where i: "1 \<le> i \<and> i < length filtered \<and> 0 < p_filesz (filtered ! i)"
        and lt: "p_offset (program_headers ! i) < consumed_before program_headers filtered i"
        using bad by blast
      have "consumed_before program_headers filtered i \<le> p_offset (program_headers ! i)"
        using succ [OF run] i by blast
      then show False using lt by (metis leD)
    qed
    then show "\<exists>e w' f. WriteCoredumpToFD cw w fd_dest = (Inl e, w', f)"
      using WriteCoredumpToFD_result [of cw w fd_dest] by blast
  qed
qed


theorem WriteCoredumpToFD_forward_order_witness:
  "ReadAndFilter (memory_limit (ex_world_open 1000)) ex_stack_cw =
     Inr (ex_ehdr 2, [ex_note_phdr 176 100, ex_load_phdr 0x7000 288 8],
          [ex_note_phdr 176 100, ex_load_phdr 0x7000 288 8]) \<and>
   fst (WriteCoredumpToFD ex_stack_cw (ex_world_open 1000) ex_dest) = Inr 296 \<and>
   consumed_before [ex_note_phdr 176 100, ex_load_phdr 0x7000 288 8]
     [ex_note_phdr 176 100, ex_load_phdr 0x7000 288 8] 1 = 276 \<and>
   consumed_before [ex_note_phdr 176 100, ex_load_phdr 0x7000 288 8]
     [ex_note_phdr 176 100, ex_load_phdr 0x7000 288 8] 1
     \<le> p_offset ([ex_note_phdr 176 100, ex_load_phdr 0x7000 288 8] ! 1) \<and>
   ReadAndFilter (memory_limit (ex_world_open 1000)) ex_backward_cw =
     Inr (ex_ehdr 2, [ex_note_phdr 176 100, ex_load_phdr 0x7000 200 8],
          [ex_note_phdr 176 100, ex_load_phdr 0x7000 288 8]) \<and>
   1 < length [ex_note_phdr 176 100, ex_load_phdr 0x7000 288 8] \<and>
   0 < p_filesz ([ex_note_phdr 176 100, ex_load_phdr 0x7000 288 8] ! 1) \<and>
   p_offset ([ex_note_phdr 176 100, ex_load_phdr 0x7000 200 8] ! 1)
     < consumed_before [ex_note_phdr 176 100, ex_load_phdr 0x7000 200 8]
         [ex_note_phdr 176 100, ex_load_phdr 0x7000 288 8] 1 \<and>
   (\<exists>e w' f. WriteCoredumpToFD ex_backward_cw (ex_world_open 1000) ex_dest = (Inl e, w', f)) \<and>
   fst (WriteCoredumpToFD ex_backward_cw (ex_world_open 1000) ex_dest) = Inl InvalidSeek"
proof -
  let ?phs = "[ex_note_phdr 176 100, ex_load_phdr 0x7000 288 8]"
  let ?bad = "[ex_note_phdr 176 100, ex_load_phdr 0x7000 200 8]"
  have m: "memory_limit (ex_world_open 1000) = memory_limit (ex_world 1)"
    by (simp add: ex_world_def ex_world_open_def)
  have s1: "ReadAndFilter (memory_limit (ex_world_open 1000)) ex_stack_cw =
              Inr (ex_ehdr 2, ?phs, ?phs)"
    unfolding m by (rule ex_stack_ReadAndFilter)
  have s2: "fst (WriteCoredumpToFD ex_stack_cw (ex_world_open 1000) ex_dest) = Inr 296"
    using ex_stack_run by (simp add: fd_outcome_def)
  have s3: "\<exists>n w' f. WriteCoredumpToFD ex_stack_cw (ex_world_open 1000) ex_dest = (Inr n, w', f)"
    using s2 by (cases "WriteCoredumpToFD ex_stack_cw (ex_world_open 1000) ex_dest") auto
  have s4: "1 \<le> (1::nat) \<and> 1 < length ?phs \<and> 0 < p_filesz (?phs ! 1)"
    by (simp add: ex_load_phdr_def)
  have s5: "consumed_before ?phs ?phs 1 \<le> p_offset (?phs ! 1)"
    using WriteCoredumpToFD_forward_order [OF s1, of ex_dest] s3 s4
    by blast
  have s6: "consumed_before ?phs ?phs 1 = 276"
    by (simp add: ex_note_phdr_def)
  have b1: "ReadAndFilter (memory_limit (ex_world_open 1000)) ex_backward_cw =
              Inr (ex_ehdr 2, ?bad, ?phs)"
    by (rule ex_backward_ReadAndFilter)
  have b2: "p_offset (?bad ! 1) < consumed_before ?bad ?phs 1"
    by (simp add: ex_note_phdr_def ex_load_phdr_def)
  have b3: "\<exists>i. 1 \<le> i \<and> i < length ?phs \<and> 0 < p_filesz (?phs ! i) \<and>
               p_offset (?bad ! i) < consumed_before ?bad ?phs i"
    using s4 b2 by blast
  have b4: "\<exists>e w' f. WriteCoredumpToFD ex_backward_cw (ex_world_open 1000) ex_dest = (Inl e, w', f)"
    using WriteCoredumpToFD_forward_order [OF b1, of ex_dest] b3
    by blast
  have l: "1 < length ?phs" and z: "0 < p_filesz (?phs ! 1)" using s4 by blast+
  show ?thesis
    using s1 s2 s6 s5 b1 l z b2 b4 ex_backward_fails by (intro conjI)
qed

section \<open>The size of the output\<close>



















end
